theory Spec2Isabelle
  imports Main "HOL-Library.AList" "HOL-Library.Sublist"
begin

section \<open>Go values: errors, panics, maps\<close>

text \<open>
  An \<open>error\<close> value of Go. \<open>Wrapf e msg\<close> is \<open>errors.Wrapf(e, msg)\<close> on a non-nil \<open>e\<close>,
  \<open>Errorf fmt args\<close> is \<open>fmt.Errorf(fmt, args...)\<close>. \<open>StoreFailure\<close> and \<open>NotFound\<close> are what
  the resource store client answers.
\<close>

datatype error =
    StoreFailure string
  | NotFound string
  | Wrapf error string
  | Errorf string "string list"

datatype panic = NilPointerDereference | IndexOutOfRange

text \<open>
  A function that returns \<open>error\<close> and does not return nil either returns a non-nil error
  or panics. The functions of \<open>upgrade.go\<close> write the cached objects in place; their models
  return the cache after a run that returns nil, and only the error or the panic otherwise.
\<close>

datatype abort = Err error | Panic panic

text \<open>
  A Go \<open>map[string]T\<close> is an association list read through \<open>map_of\<close> and written through
  \<open>AList.update\<close> and \<open>AList.map_entry\<close>, so the position of an entry in the list means
  nothing. The order in which a \<open>range\<close> statement visits the keys is chosen by the Go
  runtime; every function below that ranges over a map takes that order as an argument, a
  list of keys. \<open>rangeValid\<close> says that the list enumerates the keys of the map, each once.
\<close>

type_synonym 'a gomap = "(string \<times> 'a) list"

definition rangeOver :: "string list \<Rightarrow> 'a gomap \<Rightarrow> (string \<times> 'a) list" where
  "rangeOver order m = List.map_filter (\<lambda>k. map_option (Pair k) (map_of m k)) order"

definition rangeValid :: "string list \<Rightarrow> 'a gomap \<Rightarrow> bool" where
  "rangeValid order m \<longleftrightarrow> distinct order \<and> set order = fst ` set m"

text \<open>Reading a \<open>map[string]string\<close> at a key it does not have yields the empty string.\<close>

definition index_or_empty :: "string gomap \<Rightarrow> string \<Rightarrow> string" where
  "index_or_empty m k = (case map_of m k of None \<Rightarrow> [] | Some s \<Rightarrow> s)"

text \<open>\<open>m[k] = append(m[k], x)\<close> on a \<open>map[string][]T\<close>.\<close>

definition append_at :: "string \<Rightarrow> 'a \<Rightarrow> 'a list gomap \<Rightarrow> 'a list gomap" where
  "append_at k x m = AList.update k ((case map_of m k of None \<Rightarrow> [] | Some xs \<Rightarrow> xs) @ [x]) m"

section \<open>Resources\<close>

text \<open>
  The fields of the custom resources that \<open>upgrade.go\<close> reads or writes, named by their Go
  paths. \<open>Engine_Status_BackupStatus\<close> is a Go map that may be \<open>nil\<close> (\<open>None\<close>).
\<close>

record EngineBackupStatus =
  ebs_Progress :: int
  ebs_BackupURL :: string
  ebs_Error :: string
  ebs_SnapshotName :: string
  ebs_State :: string
  ebs_ReplicaAddress :: string

record Engine =
  Engine_Labels :: "string gomap"
  Engine_Spec_VolumeName :: string
  Engine_Spec_NodeID :: string
  Engine_Spec_DesireState :: string
  Engine_Spec_Active :: bool
  Engine_Status_CurrentState :: string
  Engine_Status_BackupStatus :: "EngineBackupStatus gomap option"

record Volume =
  Volume_Spec_NodeID :: string
  Volume_Status_CurrentNodeID :: string
  Volume_Status_PendingNodeID :: string

record Backup =
  Backup_Name :: string
  Backup_Labels :: "string gomap"
  Backup_Status_Progress :: int
  Backup_Status_URL :: string
  Backup_Status_Error :: string
  Backup_Status_SnapshotName :: string
  Backup_Status_State :: string
  Backup_Status_ReplicaAddress :: string

text \<open>
  Constants and the state conversion that \<open>upgrade.go\<close> imports from the packages \<open>types\<close>,
  \<open>longhorn\<close> and \<open>engineapi\<close>. Their declarations are outside the two source files, so they
  are parameters of the model.
\<close>

record externals =
  LonghornLabelVolume :: string
  LonghornLabelBackupVolume :: string
  InstanceStateRunning :: string
  ConvertEngineBackupState :: "string \<Rightarrow> string"

section \<open>The resource store and the provided cache\<close>

text \<open>
  The answers of the store client \<open>lhClient\<close>: the listing of each kind, and the lookup of one
  volume by name, where \<open>Inr None\<close> is the store reporting that there is no such object.
\<close>

record lhClient =
  ListBackups :: "error + Backup gomap"
  ListEngines :: "error + Engine gomap"
  ListVolumes :: "error + Volume gomap"
  GetVolume :: "string \<Rightarrow> error + Volume option"

text \<open>The cache \<open>resourceMaps\<close>: per kind, the name-to-object map once it has been stored.\<close>

record resourceMaps =
  backups :: "Backup gomap option"
  engines :: "Engine gomap option"
  volumes :: "Volume gomap option"

text \<open>
  Modelled from the spec: \<open>upgradeutil.ListAndUpdateBackupsInProvidedCache\<close>,
  \<open>ListAndUpdateEnginesInProvidedCache\<close> and \<open>ListAndUpdateVolumesInProvidedCache\<close> are not
  among the source files. Spec 4.1: on the first call per kind the full list is fetched from
  the store and stored in the cache; later calls for the same kind return the cached mapping
  without fetching again; a store failure is returned.
\<close>

definition ListAndUpdateBackupsInProvidedCache ::
  "lhClient \<Rightarrow> resourceMaps \<Rightarrow> error + (Backup gomap \<times> resourceMaps)" where
  "ListAndUpdateBackupsInProvidedCache lhc rm =
     (case backups rm of
        Some m \<Rightarrow> Inr (m, rm)
      | None \<Rightarrow> (case ListBackups lhc of
                   Inl err \<Rightarrow> Inl err
                 | Inr m \<Rightarrow> Inr (m, rm\<lparr>backups := Some m\<rparr>)))"

definition ListAndUpdateEnginesInProvidedCache ::
  "lhClient \<Rightarrow> resourceMaps \<Rightarrow> error + (Engine gomap \<times> resourceMaps)" where
  "ListAndUpdateEnginesInProvidedCache lhc rm =
     (case engines rm of
        Some m \<Rightarrow> Inr (m, rm)
      | None \<Rightarrow> (case ListEngines lhc of
                   Inl err \<Rightarrow> Inl err
                 | Inr m \<Rightarrow> Inr (m, rm\<lparr>engines := Some m\<rparr>)))"

definition ListAndUpdateVolumesInProvidedCache ::
  "lhClient \<Rightarrow> resourceMaps \<Rightarrow> error + (Volume gomap \<times> resourceMaps)" where
  "ListAndUpdateVolumesInProvidedCache lhc rm =
     (case volumes rm of
        Some m \<Rightarrow> Inr (m, rm)
      | None \<Rightarrow> (case ListVolumes lhc of
                   Inl err \<Rightarrow> Inl err
                 | Inr m \<Rightarrow> Inr (m, rm\<lparr>volumes := Some m\<rparr>)))"

text \<open>
  Modelled from the spec: \<open>upgradeutil.GetVolumeFromProvidedCache\<close> is not among the source
  files. Spec 4.1: \<open>get\<close> fetches and caches a single object if it is not already cached, and
  fails with \<open>NotFound\<close> if the store reports no such object.
\<close>

definition cachedVolume :: "resourceMaps \<Rightarrow> string \<Rightarrow> Volume option" where
  "cachedVolume rm name = (case volumes rm of None \<Rightarrow> None | Some m \<Rightarrow> map_of m name)"

definition GetVolumeFromProvidedCache ::
  "lhClient \<Rightarrow> resourceMaps \<Rightarrow> string \<Rightarrow> error + (Volume \<times> resourceMaps)" where
  "GetVolumeFromProvidedCache lhc rm name =
     (case cachedVolume rm name of
        Some v \<Rightarrow> Inr (v, rm)
      | None \<Rightarrow> (case GetVolume lhc name of
                   Inl err \<Rightarrow> Inl err
                 | Inr None \<Rightarrow> Inl (NotFound name)
                 | Inr (Some v) \<Rightarrow>
                     Inr (v, rm\<lparr>volumes :=
                                 Some (AList.update name v
                                        (case volumes rm of None \<Rightarrow> [] | Some m \<Rightarrow> m))\<rparr>)))"

section \<open>upgradeBackups\<close>

definition upgradeLogPrefix :: string where
  "upgradeLogPrefix = ''upgrade from v1.2.2 to v1.2.3: ''"

text \<open>
  The deferred \<open>err = errors.Wrapf(err, msg)\<close>: a returned error is wrapped, a panic passes
  through it.
\<close>

definition deferWrapf :: "string \<Rightarrow> abort + 'a \<Rightarrow> abort + 'a" where
  "deferWrapf msg r =
     (case r of
        Inl (Err err) \<Rightarrow> Inl (Err (Wrapf err msg))
      | Inl (Panic p) \<Rightarrow> Inl (Panic p)
      | Inr x \<Rightarrow> Inr x)"

text \<open>
  Lines 43 to 46: the index from the engines' volume label to the engines carrying it, in
  the order the range over \<open>engineMap\<close> visits them. \<open>upgradeBackups\<close> only reads engines, so
  the index holds the engine objects.
\<close>

definition volumeNameToEngines :: "externals \<Rightarrow> (string \<times> Engine) list \<Rightarrow> Engine list gomap" where
  "volumeNameToEngines ext visited =
     fold (\<lambda>(name, e) idx.
             append_at (index_or_empty (Engine_Labels e) (LonghornLabelVolume ext)) e idx)
          visited []"

text \<open>Line 63: reading the index at a volume name it does not have yields the nil slice.\<close>

definition enginesOfVolume :: "Engine list gomap \<Rightarrow> string \<Rightarrow> Engine list" where
  "enginesOfVolume idx volumeName = (case map_of idx volumeName of None \<Rightarrow> [] | Some es \<Rightarrow> es)"

text \<open>
  Lines 66 to 86, the \<open>switch\<close>: \<open>None\<close> is a \<open>continue\<close>; \<open>Some engine\<close> is the value of the
  pointer variable \<open>engine\<close> after the switch, where \<open>Some None\<close> is the nil pointer the
  variable was declared with.
\<close>

definition selectEngine ::
  "externals \<Rightarrow> Volume gomap \<Rightarrow> string \<Rightarrow> Engine list \<Rightarrow> Engine option option" where
  "selectEngine ext volumeMap volumeName engineList =
     (if length engineList = 0 then None
      else if length engineList = 1 then Some (Some (hd engineList))
      else (case map_of volumeMap volumeName of
              None \<Rightarrow> None
            | Some v \<Rightarrow>
                Some (find (\<lambda>e. Engine_Spec_NodeID e = Volume_Status_CurrentNodeID v \<and>
                                Engine_Spec_DesireState e = InstanceStateRunning ext \<and>
                                Engine_Status_CurrentState e = InstanceStateRunning ext)
                           engineList)))"

text \<open>Lines 94 to 99.\<close>

definition copyBackupStatus :: "externals \<Rightarrow> EngineBackupStatus \<Rightarrow> Backup \<Rightarrow> Backup" where
  "copyBackupStatus ext backupStatus backup =
     backup\<lparr>Backup_Status_Progress := ebs_Progress backupStatus,
            Backup_Status_URL := ebs_BackupURL backupStatus,
            Backup_Status_Error := ebs_Error backupStatus,
            Backup_Status_SnapshotName := ebs_SnapshotName backupStatus,
            Backup_Status_State := ConvertEngineBackupState ext (ebs_State backupStatus),
            Backup_Status_ReplicaAddress := ebs_ReplicaAddress backupStatus\<rparr>"

text \<open>
  \<open>engine.Status.BackupStatus[backup.Name]\<close> on a non-nil engine: a nil map has no entries.
\<close>

definition backupStatusOf :: "Engine \<Rightarrow> string \<Rightarrow> EngineBackupStatus option" where
  "backupStatusOf e name =
     (case Engine_Status_BackupStatus e of None \<Rightarrow> None | Some m \<Rightarrow> map_of m name)"

text \<open>
  Lines 56 to 99, the body of the loop for one backup. Line 89 reads a field through
  \<open>engine\<close> without a nil check, so a nil \<open>engine\<close> panics there.
\<close>

definition upgradeBackup ::
  "externals \<Rightarrow> Engine list gomap \<Rightarrow> Volume gomap \<Rightarrow> Backup \<Rightarrow> abort + Backup" where
  "upgradeBackup ext idx volumeMap backup =
     (case map_of (Backup_Labels backup) (LonghornLabelBackupVolume ext) of
        None \<Rightarrow> Inr backup
      | Some volumeName \<Rightarrow>
          (case selectEngine ext volumeMap volumeName (enginesOfVolume idx volumeName) of
             None \<Rightarrow> Inr backup
           | Some None \<Rightarrow> Inl (Panic NilPointerDereference)
           | Some (Some engine) \<Rightarrow>
               (case backupStatusOf engine (Backup_Name backup) of
                  None \<Rightarrow> Inr backup
                | Some backupStatus \<Rightarrow> Inr (copyBackupStatus ext backupStatus backup))))"

text \<open>
  Line 55, the range over \<open>backupMap\<close>: the keys in the order of the range, each backup
  object read and written in place; a panic ends the loop.
\<close>

fun rangeBackups ::
  "(Backup \<Rightarrow> abort + Backup) \<Rightarrow> string list \<Rightarrow> Backup gomap \<Rightarrow> abort + Backup gomap" where
  "rangeBackups body [] backupMap = Inr backupMap"
| "rangeBackups body (k # ks) backupMap =
     (case map_of backupMap k of
        None \<Rightarrow> rangeBackups body ks backupMap
      | Some backup \<Rightarrow>
          (case body backup of
             Inl a \<Rightarrow> Inl a
           | Inr backup' \<Rightarrow> rangeBackups body ks (AList.update k backup' backupMap)))"

text \<open>
  \<open>upgradeBackups\<close>; \<open>backupOrder\<close> and \<open>engineOrder\<close> are the orders of the two ranges. The
  progress monitor only counts and logs, and is left out.
\<close>

definition upgradeBackups ::
  "externals \<Rightarrow> lhClient \<Rightarrow> string list \<Rightarrow> string list \<Rightarrow> resourceMaps \<Rightarrow> abort + resourceMaps" where
  "upgradeBackups ext lhc backupOrder engineOrder resourceMaps =
     deferWrapf (upgradeLogPrefix @ ''upgrade backups failed'')
       (case ListAndUpdateBackupsInProvidedCache lhc resourceMaps of
          Inl err \<Rightarrow> Inl (Err err)
        | Inr (backupMap, rm1) \<Rightarrow>
            (case ListAndUpdateEnginesInProvidedCache lhc rm1 of
               Inl err \<Rightarrow> Inl (Err err)
             | Inr (engineMap, rm2) \<Rightarrow>
                 (case ListAndUpdateVolumesInProvidedCache lhc rm2 of
                    Inl err \<Rightarrow> Inl (Err err)
                  | Inr (volumeMap, rm3) \<Rightarrow>
                      (case rangeBackups
                              (upgradeBackup ext
                                 (volumeNameToEngines ext (rangeOver engineOrder engineMap))
                                 volumeMap)
                              backupOrder backupMap of
                         Inl a \<Rightarrow> Inl a
                       | Inr backupMap' \<Rightarrow> Inr (rm3\<lparr>backups := Some backupMap'\<rparr>)))))"

section \<open>checkAndRemoveEngineBackupStatus\<close>

text \<open>
  Lines 129 to 132: every engine the range visits gets \<open>Status.BackupStatus = nil\<close>, written
  through the pointer held by \<open>engineMap\<close>.
\<close>

definition checkAndRemoveEngineBackupStatus ::
  "lhClient \<Rightarrow> string list \<Rightarrow> resourceMaps \<Rightarrow> abort + resourceMaps" where
  "checkAndRemoveEngineBackupStatus lhc engineOrder resourceMaps =
     (case ListAndUpdateEnginesInProvidedCache lhc resourceMaps of
        Inl err \<Rightarrow> Inl (Err err)
      | Inr (engineMap, rm1) \<Rightarrow>
          Inr (rm1\<lparr>engines :=
                     Some (fold (\<lambda>k. AList.map_entry k (\<lambda>engine. engine\<lparr>Engine_Status_BackupStatus := None\<rparr>))
                                engineOrder engineMap)\<rparr>))"

section \<open>checkAndUpdateEngineActiveState\<close>

text \<open>
  The engines are written through pointers here, so \<open>volumeEngineMap\<close> holds pointers: an
  engine pointer is the key of the engine in \<open>engineMap\<close>, and the engine objects live in the
  association list \<open>es\<close>. \<open>pointee es P p\<close> reads the object \<open>p\<close> points to and tests \<open>P\<close> on it;
  every pointer in \<open>volumeEngineMap\<close> comes from \<open>engineMap\<close>, so the \<open>None\<close> case is never
  reached from \<open>checkAndUpdateEngineActiveState\<close>.
\<close>

definition pointee :: "Engine gomap \<Rightarrow> (Engine \<Rightarrow> bool) \<Rightarrow> string \<Rightarrow> bool" where
  "pointee es P p = (case map_of es p of None \<Rightarrow> False | Some e \<Rightarrow> P e)"

text \<open>Lines 143 to 150.\<close>

definition volumeEngineMap :: "(string \<times> Engine) list \<Rightarrow> string list gomap" where
  "volumeEngineMap visited =
     fold (\<lambda>(p, e) vem.
             if Engine_Spec_VolumeName e = [] then vem
             else append_at (Engine_Spec_VolumeName e) p vem)
          visited []"

text \<open>Lines 175 to 177, the test on one engine.\<close>

definition nodeMatches :: "Volume \<Rightarrow> Engine \<Rightarrow> bool" where
  "nodeMatches v e \<longleftrightarrow>
     (Volume_Spec_NodeID v \<noteq> [] \<and> Volume_Spec_NodeID v = Engine_Spec_NodeID e) \<or>
     (Volume_Status_CurrentNodeID v \<noteq> [] \<and> Volume_Status_CurrentNodeID v = Engine_Spec_NodeID e) \<or>
     (Volume_Status_PendingNodeID v \<noteq> [] \<and> Volume_Status_PendingNodeID v = Engine_Spec_NodeID e)"

text \<open>
  Lines 154 to 187, the body of the loop for one volume group. The state is the cache
  (which the volume lookup may extend) and the engine objects.
\<close>

definition updateEngineGroup ::
  "lhClient \<Rightarrow> string \<Rightarrow> string list \<Rightarrow> resourceMaps \<times> Engine gomap
     \<Rightarrow> abort + (resourceMaps \<times> Engine gomap)" where
  "updateEngineGroup lhc volumeName engineList s =
     (case s of (rm, es) \<Rightarrow>
        if list_ex (pointee es Engine_Spec_Active) engineList then Inr (rm, es)
        else
          (case (if length engineList = 1 then Inr (Some (hd engineList), rm)
                 else (case GetVolumeFromProvidedCache lhc rm volumeName of
                         Inl err \<Rightarrow> Inl (Err err)
                       | Inr (v, rm') \<Rightarrow> Inr (find (pointee es (nodeMatches v)) engineList, rm')))
           of
             Inl a \<Rightarrow> Inl a
           | Inr (None, rm') \<Rightarrow> Inr (rm', es)
           | Inr (Some currentEngine, rm') \<Rightarrow>
               Inr (rm', AList.map_entry currentEngine (\<lambda>e. e\<lparr>Engine_Spec_Active := True\<rparr>) es)))"

text \<open>Line 153, the range over \<open>volumeEngineMap\<close>; a returned error ends the loop.\<close>

fun rangeEngineGroups ::
  "lhClient \<Rightarrow> (string \<times> string list) list \<Rightarrow> resourceMaps \<times> Engine gomap
     \<Rightarrow> abort + (resourceMaps \<times> Engine gomap)" where
  "rangeEngineGroups lhc [] s = Inr s"
| "rangeEngineGroups lhc ((volumeName, engineList) # groups) s =
     (case updateEngineGroup lhc volumeName engineList s of
        Inl a \<Rightarrow> Inl a
      | Inr s' \<Rightarrow> rangeEngineGroups lhc groups s')"

text \<open>
  \<open>checkAndUpdateEngineActiveState\<close>; \<open>engineOrder\<close> is the order of the range over
  \<open>engineMap\<close>, \<open>volumeOrder\<close> that of the range over \<open>volumeEngineMap\<close>.
\<close>

definition checkAndUpdateEngineActiveState ::
  "lhClient \<Rightarrow> string list \<Rightarrow> string list \<Rightarrow> resourceMaps \<Rightarrow> abort + resourceMaps" where
  "checkAndUpdateEngineActiveState lhc engineOrder volumeOrder resourceMaps =
     (case ListAndUpdateEnginesInProvidedCache lhc resourceMaps of
        Inl err \<Rightarrow> Inl (Err err)
      | Inr (engineMap, rm1) \<Rightarrow>
          (case rangeEngineGroups lhc
                  (rangeOver volumeOrder (volumeEngineMap (rangeOver engineOrder engineMap)))
                  (rm1, engineMap) of
             Inl a \<Rightarrow> Inl a
           | Inr (rm2, es) \<Rightarrow> Inr (rm2\<lparr>engines := Some es\<rparr>)))"

section \<open>crypto.go: DeviceEncryptionStatus and IsDeviceOpen\<close>

text \<open>
  Go strings are byte sequences, as \<open>string\<close> is. The functions of package \<open>strings\<close> that
  \<open>DeviceEncryptionStatus\<close> calls, at the separators it calls them with (one byte each).
\<close>

definition mapperFilePathPrefix :: string where
  "mapperFilePathPrefix = ''/dev/mapper''"

definition HasPrefix :: "string \<Rightarrow> string \<Rightarrow> bool" where
  "HasPrefix s pre = prefix pre s"

definition TrimPrefix :: "string \<Rightarrow> string \<Rightarrow> string" where
  "TrimPrefix s pre = (if prefix pre s then drop (length pre) s else s)"

fun Contains :: "string \<Rightarrow> string \<Rightarrow> bool" where
  "Contains [] substr = (substr = [])"
| "Contains (c # s) substr = (prefix substr (c # s) \<or> Contains s substr)"

fun Split :: "string \<Rightarrow> char \<Rightarrow> string list" where
  "Split [] sep = [[]]"
| "Split (c # s) sep =
     (if c = sep then [] # Split s sep
      else (case Split s sep of [] \<Rightarrow> [[c]] | w # ws \<Rightarrow> (c # w) # ws))"

text \<open>\<open>strings.SplitN(s, sep, 2)\<close>: cut at the first separator, if there is one.\<close>

definition SplitN2 :: "string \<Rightarrow> char \<Rightarrow> string list" where
  "SplitN2 s sep =
     (if sep \<in> set s then [takeWhile (\<lambda>c. c \<noteq> sep) s, tl (dropWhile (\<lambda>c. c \<noteq> sep) s)]
      else [s])"

text \<open>
  \<open>strings.TrimSpace\<close> removes the leading and trailing code points that \<open>unicode.IsSpace\<close>
  accepts; \<open>spaceRunes\<close> lists their UTF-8 encodings.
\<close>

definition spaceRunes :: "string list" where
  "spaceRunes =
     [[CHR 0x09], [CHR 0x0A], [CHR 0x0B], [CHR 0x0C], [CHR 0x0D], [CHR 0x20],
      [CHR 0xC2, CHR 0x85], [CHR 0xC2, CHR 0xA0],
      [CHR 0xE1, CHR 0x9A, CHR 0x80],
      [CHR 0xE2, CHR 0x80, CHR 0x80], [CHR 0xE2, CHR 0x80, CHR 0x81],
      [CHR 0xE2, CHR 0x80, CHR 0x82], [CHR 0xE2, CHR 0x80, CHR 0x83],
      [CHR 0xE2, CHR 0x80, CHR 0x84], [CHR 0xE2, CHR 0x80, CHR 0x85],
      [CHR 0xE2, CHR 0x80, CHR 0x86], [CHR 0xE2, CHR 0x80, CHR 0x87],
      [CHR 0xE2, CHR 0x80, CHR 0x88], [CHR 0xE2, CHR 0x80, CHR 0x89],
      [CHR 0xE2, CHR 0x80, CHR 0x8A], [CHR 0xE2, CHR 0x80, CHR 0xA8],
      [CHR 0xE2, CHR 0x80, CHR 0xA9], [CHR 0xE2, CHR 0x80, CHR 0xAF],
      [CHR 0xE2, CHR 0x81, CHR 0x9F], [CHR 0xE3, CHR 0x80, CHR 0x80]]"

function dropLeading :: "string list \<Rightarrow> string \<Rightarrow> string" where
  "dropLeading runes s =
     (case find (\<lambda>r. r \<noteq> [] \<and> prefix r s) runes of
        None \<Rightarrow> s
      | Some r \<Rightarrow> dropLeading runes (drop (length r) s))"
  by pat_completeness auto
termination
proof (relation "measure (\<lambda>(runes, s). length s)")
  show "wf (measure (\<lambda>(runes, s). length s))" by simp
next
  fix runes :: "string list" and s r :: string
  assume "find (\<lambda>r. r \<noteq> [] \<and> prefix r s) runes = Some r"
  then have "r \<noteq> []" and "prefix r s"
    by (auto simp: find_Some_iff)
  then have "s \<noteq> []" by auto
  with \<open>r \<noteq> []\<close> show "((runes, drop (length r) s), (runes, s)) \<in> measure (\<lambda>(runes, s). length s)"
    by simp
qed

definition TrimSpace :: "string \<Rightarrow> string" where
  "TrimSpace s = rev (dropLeading (map rev spaceRunes) (rev (dropLeading spaceRunes s)))"

text \<open>
  Lines 135 to 146, the loop over \<open>lines[1:]\<close>. A line that trims to \<open>device\<close> with no colon
  makes \<open>kv\<close> one element long, and \<open>kv[1]\<close> panics.
\<close>

fun scanStatusLines ::
  "string \<Rightarrow> string \<Rightarrow> string list \<Rightarrow> panic + (string \<times> string \<times> error option)" where
  "scanStatusLines devicePath volume [] =
     Inr ([], [], Some (Errorf ''mapped device not found in path %s'' [devicePath]))"
| "scanStatusLines devicePath volume (line # rest) =
     (let kv = SplitN2 (TrimSpace line) (CHR '':'') in
      if length kv < 1 then
        Inr ([], [], Some (Errorf ''device encryption status output for %s is badly formatted: %s''
                             [devicePath, line]))
      else if hd kv = ''device'' then
        (if length kv < 2 then Inl IndexOutOfRange
         else Inr (TrimSpace (kv ! 1), volume, None))
      else scanStatusLines devicePath volume rest)"

text \<open>
  \<open>DeviceEncryptionStatus\<close> returns \<open>(mappedDevice, mapper, err)\<close>. \<open>luksStatus\<close> runs
  \<open>cryptsetup status\<close> and is a parameter: its standard output or an error.
\<close>

definition DeviceEncryptionStatus ::
  "(string \<Rightarrow> error + string) \<Rightarrow> string \<Rightarrow> panic + (string \<times> string \<times> error option)" where
  "DeviceEncryptionStatus luksStatus devicePath =
     (if \<not> HasPrefix devicePath mapperFilePathPrefix then Inr (devicePath, [], None)
      else
        (let volume = TrimPrefix devicePath (mapperFilePathPrefix @ ''/'') in
         case luksStatus volume of
           Inl err \<Rightarrow> Inr (devicePath, [], None)
         | Inr stdout \<Rightarrow>
             (let lines = Split stdout (CHR 0x0A) in
              if length lines < 1 then
                Inr ([], [], Some (Errorf ''device encryption status returned no stdout for %s''
                                     [devicePath]))
              else if \<not> Contains (hd lines) '' is active'' then Inr (devicePath, [], None)
              else scanStatusLines devicePath volume (drop 1 lines))))"

definition IsDeviceOpen ::
  "(string \<Rightarrow> error + string) \<Rightarrow> string \<Rightarrow> panic + (bool \<times> error option)" where
  "IsDeviceOpen luksStatus device =
     (case DeviceEncryptionStatus luksStatus device of
        Inl p \<Rightarrow> Inl p
      | Inr (mappedDevice, mappedFile, err) \<Rightarrow> Inr (mappedFile \<noteq> [], err))"

section \<open>Notions used in the statements about checkAndUpdateEngineActiveState\<close>

text \<open>
  The engine list that \<open>volumeEngineMap\<close> holds for a volume name: the pointers of the
  engines with that \<open>Spec.VolumeName\<close>, in the order the range over \<open>engineMap\<close> visits them.
\<close>

definition groupOf :: "Engine gomap \<Rightarrow> string list \<Rightarrow> string \<Rightarrow> string list" where
  "groupOf es engineOrder volumeName =
     filter (pointee es (\<lambda>e. Engine_Spec_VolumeName e = volumeName)) engineOrder"

text \<open>The volume that the lookup at line 170 yields in a cache state, or its error.\<close>

definition volumeFor :: "lhClient \<Rightarrow> resourceMaps \<Rightarrow> string \<Rightarrow> error + Volume" where
  "volumeFor lhc rm name =
     (case GetVolumeFromProvidedCache lhc rm name of
        Inl err \<Rightarrow> Inl err
      | Inr (v, rm') \<Rightarrow> Inr v)"

definition setActive :: "Engine \<Rightarrow> Engine" where
  "setActive e = e\<lparr>Engine_Spec_Active := True\<rparr>"

text \<open>
  The value of \<open>currentEngine\<close> at line 183 for one group, as a function of the volume
  lookup \<open>vf\<close> and the engine objects: \<open>Inr None\<close> when the group is skipped or no engine is
  found, \<open>Inl\<close> when the volume lookup fails.
\<close>

definition currentEngineOf ::
  "(string \<Rightarrow> error + Volume) \<Rightarrow> Engine gomap \<Rightarrow> string \<Rightarrow> string list \<Rightarrow> abort + string option"
  where
  "currentEngineOf vf es volumeName engineList =
     (if list_ex (pointee es Engine_Spec_Active) engineList then Inr None
      else if length engineList = 1 then Inr (Some (hd engineList))
      else (case vf volumeName of
              Inl err \<Rightarrow> Inl (Err err)
            | Inr v \<Rightarrow> Inr (find (pointee es (nodeMatches v)) engineList)))"

definition activate :: "string option \<Rightarrow> Engine gomap \<Rightarrow> Engine gomap" where
  "activate c es = (case c of None \<Rightarrow> es | Some p \<Rightarrow> AList.map_entry p setActive es)"

fun disjointGroups :: "(string \<times> string list) list \<Rightarrow> bool" where
  "disjointGroups [] = True"
| "disjointGroups ((volumeName, engineList) # groups) =
     ((\<forall>(volumeName', engineList') \<in> set groups. set engineList \<inter> set engineList' = {}) \<and>
      disjointGroups groups)"

section \<open>Example resources\<close>

text \<open>Concrete resources at which the theorems below are instantiated.\<close>

definition ext0 :: externals where
  "ext0 = \<lparr>LonghornLabelVolume = ''longhornvolume'',
           LonghornLabelBackupVolume = ''backup-volume'',
           InstanceStateRunning = ''running'',
           ConvertEngineBackupState =
             (\<lambda>s. if s = ''in_progress'' then ''InProgress''
                  else if s = ''complete'' then ''Completed'' else s)\<rparr>"

definition engineOn :: "string \<Rightarrow> string \<Rightarrow> bool \<Rightarrow> Engine" where
  "engineOn volumeName nodeID active =
     \<lparr>Engine_Labels = [(''longhornvolume'', volumeName)],
      Engine_Spec_VolumeName = volumeName,
      Engine_Spec_NodeID = nodeID,
      Engine_Spec_DesireState = ''running'',
      Engine_Spec_Active = active,
      Engine_Status_CurrentState = ''running'',
      Engine_Status_BackupStatus = None\<rparr>"

definition statusInProgress :: EngineBackupStatus where
  "statusInProgress =
     \<lparr>ebs_Progress = 50, ebs_BackupURL = ''s3://bucket/b1'', ebs_Error = [],
      ebs_SnapshotName = ''snap1'', ebs_State = ''in_progress'',
      ebs_ReplicaAddress = ''tcp://10.0.0.1:10000''\<rparr>"

definition backupOf :: "string \<Rightarrow> string gomap \<Rightarrow> Backup" where
  "backupOf name labels =
     \<lparr>Backup_Name = name, Backup_Labels = labels, Backup_Status_Progress = 0,
      Backup_Status_URL = [], Backup_Status_Error = [], Backup_Status_SnapshotName = [],
      Backup_Status_State = [], Backup_Status_ReplicaAddress = []\<rparr>"

definition volumeOn :: "string \<Rightarrow> string \<Rightarrow> string \<Rightarrow> Volume" where
  "volumeOn desired current pending =
     \<lparr>Volume_Spec_NodeID = desired, Volume_Status_CurrentNodeID = current,
      Volume_Status_PendingNodeID = pending\<rparr>"

definition emptyStore :: lhClient where
  "emptyStore = \<lparr>ListBackups = Inr [], ListEngines = Inr [], ListVolumes = Inr [],
                 GetVolume = (\<lambda>name. Inr None)\<rparr>"

definition cacheOf :: "Backup gomap \<Rightarrow> Engine gomap \<Rightarrow> Volume gomap \<Rightarrow> resourceMaps" where
  "cacheOf bs es vs = \<lparr>backups = Some bs, engines = Some es, volumes = Some vs\<rparr>"

definition backupsExample :: "Backup gomap" where
  "backupsExample =
     [(''b1'', backupOf ''b1'' []), (''b2'', backupOf ''b2'' [(''backup-volume'', ''v1'')])]"

definition backupsExampleAfter :: "Backup gomap" where
  "backupsExampleAfter =
     [(''b1'', backupOf ''b1'' []),
      (''b2'', \<lparr>Backup_Name = ''b2'', Backup_Labels = [(''backup-volume'', ''v1'')],
               Backup_Status_Progress = 50, Backup_Status_URL = ''s3://bucket/b1'',
               Backup_Status_Error = [], Backup_Status_SnapshotName = ''snap1'',
               Backup_Status_State = ''InProgress'',
               Backup_Status_ReplicaAddress = ''tcp://10.0.0.1:10000''\<rparr>)]"

definition engineBackingUp :: Engine where
  "engineBackingUp =
     (engineOn ''v1'' ''n1'' False)
       \<lparr>Engine_Status_BackupStatus := Some [(''b2'', statusInProgress)]\<rparr>"

definition enginesTwoNodes :: "Engine gomap" where
  "enginesTwoNodes = [(''e1'', engineOn ''v1'' ''n1'' False), (''e2'', engineOn ''v1'' ''n2'' False)]"

definition volumeMigrating :: "Volume gomap" where
  "volumeMigrating = [(''v1'', volumeOn [] ''n2'' ''n1'')]"

definition enginesThree :: "Engine gomap" where
  "enginesThree = [(''e1'', engineOn ''v1'' ''n1'' False), (''e2'', engineOn ''v1'' ''n2'' False),
                   (''e3'', engineOn ''v2'' ''n1'' False)]"

definition enginesThreeAfter :: "Engine gomap" where
  "enginesThreeAfter = [(''e1'', engineOn ''v1'' ''n1'' False), (''e2'', engineOn ''v1'' ''n2'' True),
                        (''e3'', engineOn ''v2'' ''n1'' True)]"

definition volumeCurrentN2 :: "Volume gomap" where
  "volumeCurrentN2 = [(''v1'', volumeOn [] ''n2'' [])]"

definition volumeNoNode :: "Volume gomap" where
  "volumeNoNode = [(''v1'', volumeOn [] [] [])]"

definition enginesTwoGroups :: "Engine gomap" where
  "enginesTwoGroups =
     [(''e1'', engineOn ''v1'' ''n1'' False), (''e2'', engineOn ''v1'' ''n2'' False),
      (''e4'', engineOn ''v3'' ''n1'' False), (''e5'', engineOn ''v3'' ''n2'' False)]"

definition enginesTwoGroupsAfter :: "Engine gomap" where
  "enginesTwoGroupsAfter =
     [(''e1'', engineOn ''v1'' ''n1'' False), (''e2'', engineOn ''v1'' ''n2'' False),
      (''e4'', engineOn ''v3'' ''n1'' False), (''e5'', engineOn ''v3'' ''n2'' True)]"

definition volumesOneFound :: "Volume gomap" where
  "volumesOneFound = [(''v1'', volumeOn [] [] []), (''v3'', volumeOn [] ''n2'' [])]"

definition enginesBothActive :: "Engine gomap" where
  "enginesBothActive = [(''e1'', engineOn ''v1'' ''n1'' True), (''e2'', engineOn ''v1'' ''n2'' True)]"

definition luksActive :: "string \<Rightarrow> error + string" where
  "luksActive volume =
     Inr (''/dev/mapper/'' @ volume @ '' is active.'' @ [CHR 0x0A] @ ''  device:  /dev/sdb'')"

lemmas example_defs =
  ext0_def engineOn_def statusInProgress_def backupOf_def volumeOn_def emptyStore_def
  cacheOf_def luksActive_def backupsExample_def backupsExampleAfter_def engineBackingUp_def
  enginesTwoNodes_def volumeMigrating_def enginesThree_def enginesThreeAfter_def
  volumeCurrentN2_def volumeNoNode_def enginesBothActive_def
  enginesTwoGroups_def enginesTwoGroupsAfter_def volumesOneFound_def

section \<open>Facts about the cache and the ranges\<close>

lemmas cache_defs =
  ListAndUpdateBackupsInProvidedCache_def ListAndUpdateEnginesInProvidedCache_def
  ListAndUpdateVolumesInProvidedCache_def

lemmas upgradeBackups_defs =
  upgradeBackups_def cache_defs deferWrapf_def rangeOver_def volumeNameToEngines_def
  append_at_def index_or_empty_def upgradeBackup_def selectEngine_def List.map_filter_def
  backupStatusOf_def copyBackupStatus_def enginesOfVolume_def

lemma upgradeBackups_Inr:
  assumes "upgradeBackups ext lhc backupOrder engineOrder rm = Inr rm'"
  obtains backupMap engineMap volumeMap backupMap'
    and rm1 :: resourceMaps and rm2 :: resourceMaps and rm3 :: resourceMaps where
    "ListAndUpdateBackupsInProvidedCache lhc rm = Inr (backupMap, rm1)"
    "ListAndUpdateEnginesInProvidedCache lhc rm1 = Inr (engineMap, rm2)"
    "ListAndUpdateVolumesInProvidedCache lhc rm2 = Inr (volumeMap, rm3)"
    "rangeBackups
       (upgradeBackup ext (volumeNameToEngines ext (rangeOver engineOrder engineMap)) volumeMap)
       backupOrder backupMap = Inr backupMap'"
    "rm' = rm3\<lparr>backups := Some backupMap'\<rparr>"
  using assms unfolding upgradeBackups_def deferWrapf_def
  by (auto split: sum.splits prod.splits abort.splits)

lemma rangeBackups_other:
  "rangeBackups body ks bm = Inr bm' \<Longrightarrow> k \<notin> set ks \<Longrightarrow> map_of bm' k = map_of bm k"
proof (induction ks arbitrary: bm)
  case Nil
  then show ?case by simp
next
  case (Cons x ks)
  then show ?case
    by (cases "map_of bm x") (auto split: sum.splits simp: update_conv')
qed

lemma rangeBackups_fixed:
  "rangeBackups body ks bm = Inr bm' \<Longrightarrow> map_of bm k = Some b \<Longrightarrow> body b = Inr b
     \<Longrightarrow> map_of bm' k = Some b"
proof (induction ks arbitrary: bm)
  case Nil
  then show ?case by simp
next
  case (Cons x ks)
  show ?case
  proof (cases "map_of bm x")
    case None
    with Cons show ?thesis by simp
  next
    case (Some bx)
    with Cons.prems obtain bx' where bx': "body bx = Inr bx'"
      and rest: "rangeBackups body ks (AList.update x bx' bm) = Inr bm'"
      by (auto split: sum.splits)
    have "map_of (AList.update x bx' bm) k = Some b"
    proof (cases "x = k")
      case True
      with Some Cons.prems bx' show ?thesis by (simp add: update_conv')
    next
      case False
      with Cons.prems show ?thesis by (simp add: update_conv')
    qed
    with Cons.IH rest Cons.prems show ?thesis by blast
  qed
qed

lemma rangeBackups_visited:
  "rangeBackups body ks bm = Inr bm' \<Longrightarrow> distinct ks \<Longrightarrow> k \<in> set ks
     \<Longrightarrow> map_of bm k = Some b \<Longrightarrow> body b = Inr b' \<Longrightarrow> map_of bm' k = Some b'"
proof (induction ks arbitrary: bm)
  case Nil
  then show ?case by simp
next
  case (Cons x ks)
  show ?case
  proof (cases "x = k")
    case True
    with Cons.prems have rest: "rangeBackups body ks (AList.update k b' bm) = Inr bm'"
      and "k \<notin> set ks"
      by auto
    then have "map_of bm' k = map_of (AList.update k b' bm) k"
      by (rule rangeBackups_other)
    then show ?thesis by (simp add: update_conv')
  next
    case False
    show ?thesis
    proof (cases "map_of bm x")
      case None
      with Cons False show ?thesis by simp
    next
      case (Some bx)
      with Cons.prems obtain bx' where
        rest: "rangeBackups body ks (AList.update x bx' bm) = Inr bm'"
        by (auto split: sum.splits)
      moreover from False Cons.prems have "map_of (AList.update x bx' bm) k = Some b"
        by (simp add: update_conv')
      ultimately show ?thesis
        using Cons.IH Cons.prems False by auto
    qed
  qed
qed

section \<open>upgradeBackups: the claims\<close>

text \<open>
  C1. A backup whose volume label resolves to two candidate engines, neither of them on the
  volume's current node: the claim expects the backup to be left untouched and the step to
  complete. The switch leaves \<open>engine\<close> nil and line 89 dereferences it, so the step panics.
\<close>

theorem upgradeBackups_no_match_panics:
  "upgradeBackups ext0 emptyStore [''b1''] [''e1'', ''e2'']
     (cacheOf [(''b1'', backupOf ''b1'' [(''backup-volume'', ''v1'')])]
              [(''e1'', engineOn ''v1'' ''n1'' False), (''e2'', engineOn ''v1'' ''n2'' False)]
              [(''v1'', volumeOn [] ''n3'' [])])
   = Inl (Panic NilPointerDereference)"
  by (simp add: upgradeBackups_defs example_defs)

text \<open>
  C6. When \<open>upgradeBackups\<close> returns, every backup that carries no volume label is the
  object it was when the backups were loaded: none of its fields has changed. The body of
  the loop returns such a backup as it is, whatever the engines and volumes are.
\<close>

theorem upgradeBackups_unlabelled_unchanged:
  assumes "ListAndUpdateBackupsInProvidedCache lhc rm = Inr (backupMap, rm1)"
      and "upgradeBackups ext lhc backupOrder engineOrder rm = Inr rm'"
      and "map_of backupMap k = Some backup"
      and "map_of (Backup_Labels backup) (LonghornLabelBackupVolume ext) = None"
    shows "(\<exists>backupMap'. backups rm' = Some backupMap' \<and> map_of backupMap' k = Some backup)
         \<and> upgradeBackup ext idx volumeMap' backup = Inr backup"
proof -
  from assms(2) obtain backupMap0 engineMap volumeMap backupMap'
    and rm10 :: resourceMaps and rm2 :: resourceMaps and rm3 :: resourceMaps where
    l: "ListAndUpdateBackupsInProvidedCache lhc rm = Inr (backupMap0, rm10)"
    and r: "rangeBackups
              (upgradeBackup ext (volumeNameToEngines ext (rangeOver engineOrder engineMap))
                 volumeMap)
              backupOrder backupMap0 = Inr backupMap'"
    and e: "rm' = rm3\<lparr>backups := Some backupMap'\<rparr>"
    by (rule upgradeBackups_Inr)
  from l assms(1) have "backupMap0 = backupMap" by simp
  moreover have
    "upgradeBackup ext (volumeNameToEngines ext (rangeOver engineOrder engineMap)) volumeMap
       backup = Inr backup"
    using assms(4) by (simp add: upgradeBackup_def)
  ultimately have "map_of backupMap' k = Some backup"
    using r assms(3) rangeBackups_fixed by blast
  moreover have "upgradeBackup ext idx volumeMap' backup = Inr backup"
    using assms(4) by (simp add: upgradeBackup_def)
  ultimately show ?thesis using e by simp
qed

theorem upgradeBackups_unlabelled_unchanged_witness:
  "ListAndUpdateBackupsInProvidedCache emptyStore (cacheOf backupsExample [(''e1'', engineBackingUp)] [])
     = Inr (backupsExample, cacheOf backupsExample [(''e1'', engineBackingUp)] [])
   \<and> upgradeBackups ext0 emptyStore [''b2'', ''b1''] [''e1'']
        (cacheOf backupsExample [(''e1'', engineBackingUp)] [])
     = Inr (cacheOf backupsExampleAfter [(''e1'', engineBackingUp)] [])
   \<and> map_of backupsExample ''b1'' = Some (backupOf ''b1'' [])
   \<and> map_of (Backup_Labels (backupOf ''b1'' [])) (LonghornLabelBackupVolume ext0) = None
   \<and> (\<exists>backupMap'. backups (cacheOf backupsExampleAfter [(''e1'', engineBackingUp)] [])
                       = Some backupMap'
                     \<and> map_of backupMap' ''b1'' = Some (backupOf ''b1'' []))
   \<and> upgradeBackup ext0 [(''v1'', [engineBackingUp])] [] (backupOf ''b1'' [])
       = Inr (backupOf ''b1'' [])"
proof -
  have h1: "ListAndUpdateBackupsInProvidedCache emptyStore
              (cacheOf backupsExample [(''e1'', engineBackingUp)] [])
            = Inr (backupsExample, cacheOf backupsExample [(''e1'', engineBackingUp)] [])"
    by (simp add: cache_defs cacheOf_def)
  have h2: "upgradeBackups ext0 emptyStore [''b2'', ''b1''] [''e1'']
              (cacheOf backupsExample [(''e1'', engineBackingUp)] [])
            = Inr (cacheOf backupsExampleAfter [(''e1'', engineBackingUp)] [])"
    by (simp add: upgradeBackups_defs example_defs)
  have h3: "map_of backupsExample ''b1'' = Some (backupOf ''b1'' [])"
    by (simp add: backupsExample_def)
  have h4: "map_of (Backup_Labels (backupOf ''b1'' [])) (LonghornLabelBackupVolume ext0) = None"
    by (simp add: backupOf_def)
  from upgradeBackups_unlabelled_unchanged
         [OF h1 h2 h3 h4, of "[(''v1'', [engineBackingUp])]" "[]"] h1 h2 h3 h4
  show ?thesis by blast
qed

text \<open>
  C7. When \<open>upgradeBackups\<close> returns, a backup for which the switch selected an engine has
  exactly the six status fields progress, URL, error, snapshot name, state (converted by
  \<open>ConvertEngineBackupState\<close>) and replica address overwritten from the engine's
  \<open>backupStatus\<close> entry under the backup's name; when the engine has no such entry the backup
  is the object it was. That is also what the body of the loop returns for the backup.
\<close>

theorem upgradeBackups_copies_status:
  assumes "ListAndUpdateBackupsInProvidedCache lhc rm = Inr (backupMap, rm1)"
      and "ListAndUpdateEnginesInProvidedCache lhc rm1 = Inr (engineMap, rm2)"
      and "ListAndUpdateVolumesInProvidedCache lhc rm2 = Inr (volumeMap, rm3)"
      and "upgradeBackups ext lhc backupOrder engineOrder rm = Inr rm'"
      and "rangeValid backupOrder backupMap"
      and "map_of backupMap k = Some backup"
      and "map_of (Backup_Labels backup) (LonghornLabelBackupVolume ext) = Some volumeName"
      and "selectEngine ext volumeMap volumeName
             (enginesOfVolume (volumeNameToEngines ext (rangeOver engineOrder engineMap))
                volumeName)
           = Some (Some engine)"
    shows "(\<exists>backupMap'. backups rm' = Some backupMap' \<and>
             map_of backupMap' k =
               Some (case backupStatusOf engine (Backup_Name backup) of
                       None \<Rightarrow> backup
                     | Some st \<Rightarrow>
                         backup\<lparr>Backup_Status_Progress := ebs_Progress st,
                                Backup_Status_URL := ebs_BackupURL st,
                                Backup_Status_Error := ebs_Error st,
                                Backup_Status_SnapshotName := ebs_SnapshotName st,
                                Backup_Status_State := ConvertEngineBackupState ext (ebs_State st),
                                Backup_Status_ReplicaAddress := ebs_ReplicaAddress st\<rparr>))
         \<and> upgradeBackup ext (volumeNameToEngines ext (rangeOver engineOrder engineMap)) volumeMap
               backup =
             Inr (case backupStatusOf engine (Backup_Name backup) of
                    None \<Rightarrow> backup
                  | Some st \<Rightarrow>
                      backup\<lparr>Backup_Status_Progress := ebs_Progress st,
                             Backup_Status_URL := ebs_BackupURL st,
                             Backup_Status_Error := ebs_Error st,
                             Backup_Status_SnapshotName := ebs_SnapshotName st,
                             Backup_Status_State := ConvertEngineBackupState ext (ebs_State st),
                             Backup_Status_ReplicaAddress := ebs_ReplicaAddress st\<rparr>)"
proof -
  let ?body = "upgradeBackup ext (volumeNameToEngines ext (rangeOver engineOrder engineMap)) volumeMap"
  let ?res = "case backupStatusOf engine (Backup_Name backup) of
                None \<Rightarrow> backup
              | Some st \<Rightarrow>
                  backup\<lparr>Backup_Status_Progress := ebs_Progress st,
                         Backup_Status_URL := ebs_BackupURL st,
                         Backup_Status_Error := ebs_Error st,
                         Backup_Status_SnapshotName := ebs_SnapshotName st,
                         Backup_Status_State := ConvertEngineBackupState ext (ebs_State st),
                         Backup_Status_ReplicaAddress := ebs_ReplicaAddress st\<rparr>"
  from assms(4) obtain backupMap0 engineMap0 volumeMap0 backupMap'
    and rm10 :: resourceMaps and rm20 :: resourceMaps and rm30 :: resourceMaps where
    "ListAndUpdateBackupsInProvidedCache lhc rm = Inr (backupMap0, rm10)"
    "ListAndUpdateEnginesInProvidedCache lhc rm10 = Inr (engineMap0, rm20)"
    "ListAndUpdateVolumesInProvidedCache lhc rm20 = Inr (volumeMap0, rm30)"
    "rangeBackups
       (upgradeBackup ext (volumeNameToEngines ext (rangeOver engineOrder engineMap0)) volumeMap0)
       backupOrder backupMap0 = Inr backupMap'"
    "rm' = rm30\<lparr>backups := Some backupMap'\<rparr>"
    by (rule upgradeBackups_Inr)
  with assms(1-3) have r: "rangeBackups ?body backupOrder backupMap = Inr backupMap'"
    and e: "rm' = rm3\<lparr>backups := Some backupMap'\<rparr>"
    by auto
  have body: "?body backup = Inr ?res"
    using assms(7,8) by (simp add: upgradeBackup_def copyBackupStatus_def split: option.splits)
  from assms(5,6) have d: "distinct backupOrder" and m: "k \<in> set backupOrder"
    by (auto simp: rangeValid_def dest!: map_of_SomeD intro: rev_image_eqI)
  from r d m assms(6) body have "map_of backupMap' k = Some ?res"
    by (rule rangeBackups_visited)
  with e body show ?thesis by simp
qed

theorem upgradeBackups_copies_status_witness:
  "ListAndUpdateBackupsInProvidedCache emptyStore (cacheOf backupsExample [(''e1'', engineBackingUp)] [])
     = Inr (backupsExample, cacheOf backupsExample [(''e1'', engineBackingUp)] [])
   \<and> ListAndUpdateEnginesInProvidedCache emptyStore (cacheOf backupsExample [(''e1'', engineBackingUp)] [])
     = Inr ([(''e1'', engineBackingUp)], cacheOf backupsExample [(''e1'', engineBackingUp)] [])
   \<and> ListAndUpdateVolumesInProvidedCache emptyStore (cacheOf backupsExample [(''e1'', engineBackingUp)] [])
     = Inr ([], cacheOf backupsExample [(''e1'', engineBackingUp)] [])
   \<and> upgradeBackups ext0 emptyStore [''b2'', ''b1''] [''e1'']
        (cacheOf backupsExample [(''e1'', engineBackingUp)] [])
     = Inr (cacheOf backupsExampleAfter [(''e1'', engineBackingUp)] [])
   \<and> rangeValid [''b2'', ''b1''] backupsExample
   \<and> map_of backupsExample ''b2'' = Some (backupOf ''b2'' [(''backup-volume'', ''v1'')])
   \<and> map_of (Backup_Labels (backupOf ''b2'' [(''backup-volume'', ''v1'')]))
        (LonghornLabelBackupVolume ext0) = Some ''v1''
   \<and> selectEngine ext0 [] ''v1''
        (enginesOfVolume (volumeNameToEngines ext0 (rangeOver [''e1''] [(''e1'', engineBackingUp)]))
           ''v1'')
     = Some (Some engineBackingUp)
   \<and> (\<exists>backupMap'. backups (cacheOf backupsExampleAfter [(''e1'', engineBackingUp)] [])
                       = Some backupMap'
         \<and> map_of backupMap' ''b2'' =
             Some \<lparr>Backup_Name = ''b2'', Backup_Labels = [(''backup-volume'', ''v1'')],
                   Backup_Status_Progress = 50, Backup_Status_URL = ''s3://bucket/b1'',
                   Backup_Status_Error = [], Backup_Status_SnapshotName = ''snap1'',
                   Backup_Status_State = ''InProgress'',
                   Backup_Status_ReplicaAddress = ''tcp://10.0.0.1:10000''\<rparr>)"
proof -
  let ?rm = "cacheOf backupsExample [(''e1'', engineBackingUp)] []"
  have h1: "ListAndUpdateBackupsInProvidedCache emptyStore ?rm = Inr (backupsExample, ?rm)"
    by (simp add: cache_defs cacheOf_def)
  have h2: "ListAndUpdateEnginesInProvidedCache emptyStore ?rm
            = Inr ([(''e1'', engineBackingUp)], ?rm)"
    by (simp add: cache_defs cacheOf_def)
  have h3: "ListAndUpdateVolumesInProvidedCache emptyStore ?rm = Inr ([], ?rm)"
    by (simp add: cache_defs cacheOf_def)
  have h4: "upgradeBackups ext0 emptyStore [''b2'', ''b1''] [''e1''] ?rm
            = Inr (cacheOf backupsExampleAfter [(''e1'', engineBackingUp)] [])"
    by (simp add: upgradeBackups_defs example_defs)
  have h5: "rangeValid [''b2'', ''b1''] backupsExample"
    by (simp add: rangeValid_def backupsExample_def insert_commute)
  have h6: "map_of backupsExample ''b2'' = Some (backupOf ''b2'' [(''backup-volume'', ''v1'')])"
    by (simp add: backupsExample_def)
  have h7: "map_of (Backup_Labels (backupOf ''b2'' [(''backup-volume'', ''v1'')]))
              (LonghornLabelBackupVolume ext0) = Some ''v1''"
    by (simp add: backupOf_def ext0_def)
  have h8: "selectEngine ext0 [] ''v1''
              (enginesOfVolume
                 (volumeNameToEngines ext0 (rangeOver [''e1''] [(''e1'', engineBackingUp)])) ''v1'')
            = Some (Some engineBackingUp)"
    by (simp add: upgradeBackups_defs example_defs)
  have ev: "(case backupStatusOf engineBackingUp (Backup_Name (backupOf ''b2'' [(''backup-volume'', ''v1'')])) of
               None \<Rightarrow> backupOf ''b2'' [(''backup-volume'', ''v1'')]
             | Some st \<Rightarrow>
                 (backupOf ''b2'' [(''backup-volume'', ''v1'')])
                   \<lparr>Backup_Status_Progress := ebs_Progress st,
                    Backup_Status_URL := ebs_BackupURL st,
                    Backup_Status_Error := ebs_Error st,
                    Backup_Status_SnapshotName := ebs_SnapshotName st,
                    Backup_Status_State := ConvertEngineBackupState ext0 (ebs_State st),
                    Backup_Status_ReplicaAddress := ebs_ReplicaAddress st\<rparr>)
            = \<lparr>Backup_Name = ''b2'', Backup_Labels = [(''backup-volume'', ''v1'')],
               Backup_Status_Progress = 50, Backup_Status_URL = ''s3://bucket/b1'',
               Backup_Status_Error = [], Backup_Status_SnapshotName = ''snap1'',
               Backup_Status_State = ''InProgress'',
               Backup_Status_ReplicaAddress = ''tcp://10.0.0.1:10000''\<rparr>"
    by (simp add: backupStatusOf_def example_defs)
  from upgradeBackups_copies_status [OF h1 h2 h3 h4 h5 h6 h7 h8] ev h1 h2 h3 h4 h5 h6 h7 h8
  show ?thesis by simp
qed

section \<open>checkAndRemoveEngineBackupStatus: the claim\<close>

lemma fold_map_entry:
  "distinct ks \<Longrightarrow>
   map_of (fold (\<lambda>k. AList.map_entry k f) ks m) p =
     (if p \<in> set ks then map_option f (map_of m p) else map_of m p)"
proof (induction ks arbitrary: m)
  case Nil
  then show ?case by simp
next
  case (Cons k ks)
  then show ?case
    by (auto simp: map_of_map_entry split: option.splits)
qed

text \<open>
  C8. \<open>checkAndRemoveEngineBackupStatus\<close> fails only with the error of the engine listing.
  When the listing succeeds it returns the cache in which every engine has
  \<open>Status.BackupStatus\<close> nil and is otherwise the object it was; no engine is added or
  removed, and the cached backups and volumes are the same.
\<close>

theorem checkAndRemoveEngineBackupStatus_clears:
  "(\<forall>a. checkAndRemoveEngineBackupStatus lhc engineOrder rm = Inl a \<longrightarrow>
          (\<exists>err. a = Err err \<and> ListAndUpdateEnginesInProvidedCache lhc rm = Inl err \<and>
                 engines rm = None \<and> ListEngines lhc = Inl err))
   \<and> (\<forall>engineMap rm1.
          ListAndUpdateEnginesInProvidedCache lhc rm = Inr (engineMap, rm1) \<longrightarrow>
          rangeValid engineOrder engineMap \<longrightarrow>
          (\<exists>es'. checkAndRemoveEngineBackupStatus lhc engineOrder rm
                    = Inr (rm\<lparr>engines := Some es'\<rparr>) \<and>
                  (\<forall>k. map_of es' k =
                         map_option (\<lambda>e. e\<lparr>Engine_Status_BackupStatus := None\<rparr>)
                           (map_of engineMap k))))"
proof (intro conjI allI impI)
  fix a
  assume "checkAndRemoveEngineBackupStatus lhc engineOrder rm = Inl a"
  then show "\<exists>err. a = Err err \<and> ListAndUpdateEnginesInProvidedCache lhc rm = Inl err \<and>
                   engines rm = None \<and> ListEngines lhc = Inl err"
    by (auto simp: checkAndRemoveEngineBackupStatus_def ListAndUpdateEnginesInProvidedCache_def
             split: sum.splits option.splits)
next
  fix engineMap rm1
  assume l: "ListAndUpdateEnginesInProvidedCache lhc rm = Inr (engineMap, rm1)"
    and v: "rangeValid engineOrder engineMap"
  let ?es = "fold (\<lambda>k. AList.map_entry k (\<lambda>engine. engine\<lparr>Engine_Status_BackupStatus := None\<rparr>))
                  engineOrder engineMap"
  from l have "rm1\<lparr>engines := Some ?es\<rparr> = rm\<lparr>engines := Some ?es\<rparr>"
    by (auto simp: ListAndUpdateEnginesInProvidedCache_def split: option.splits sum.splits)
  with l have "checkAndRemoveEngineBackupStatus lhc engineOrder rm = Inr (rm\<lparr>engines := Some ?es\<rparr>)"
    by (simp add: checkAndRemoveEngineBackupStatus_def)
  moreover have "map_of ?es k =
                   map_option (\<lambda>e. e\<lparr>Engine_Status_BackupStatus := None\<rparr>) (map_of engineMap k)"
    for k
  proof (cases "k \<in> set engineOrder")
    case True
    with v show ?thesis by (simp add: fold_map_entry rangeValid_def)
  next
    case False
    with v have "map_of engineMap k = None"
      by (simp add: rangeValid_def map_of_eq_None_iff)
    with v False show ?thesis by (simp add: fold_map_entry rangeValid_def)
  qed
  ultimately show "\<exists>es'. checkAndRemoveEngineBackupStatus lhc engineOrder rm
                           = Inr (rm\<lparr>engines := Some es'\<rparr>) \<and>
                         (\<forall>k. map_of es' k =
                                map_option (\<lambda>e. e\<lparr>Engine_Status_BackupStatus := None\<rparr>)
                                  (map_of engineMap k))"
    by blast
qed

theorem checkAndRemoveEngineBackupStatus_clears_witness:
  "ListAndUpdateEnginesInProvidedCache emptyStore
     (cacheOf [] [(''e1'', engineBackingUp), (''e2'', engineOn ''v2'' ''n2'' True)] [])
     = Inr ([(''e1'', engineBackingUp), (''e2'', engineOn ''v2'' ''n2'' True)],
            cacheOf [] [(''e1'', engineBackingUp), (''e2'', engineOn ''v2'' ''n2'' True)] [])
   \<and> rangeValid [''e2'', ''e1''] [(''e1'', engineBackingUp), (''e2'', engineOn ''v2'' ''n2'' True)]
   \<and> checkAndRemoveEngineBackupStatus emptyStore [''e2'', ''e1'']
       (cacheOf [] [(''e1'', engineBackingUp), (''e2'', engineOn ''v2'' ''n2'' True)] [])
     = Inr (cacheOf [] [(''e1'', engineOn ''v1'' ''n1'' False), (''e2'', engineOn ''v2'' ''n2'' True)] [])
   \<and> (\<exists>es'. checkAndRemoveEngineBackupStatus emptyStore [''e2'', ''e1'']
               (cacheOf [] [(''e1'', engineBackingUp), (''e2'', engineOn ''v2'' ''n2'' True)] [])
             = Inr ((cacheOf [] [(''e1'', engineBackingUp), (''e2'', engineOn ''v2'' ''n2'' True)] [])
                      \<lparr>engines := Some es'\<rparr>)
          \<and> (\<forall>k. map_of es' k =
                   map_option (\<lambda>e. e\<lparr>Engine_Status_BackupStatus := None\<rparr>)
                     (map_of [(''e1'', engineBackingUp), (''e2'', engineOn ''v2'' ''n2'' True)] k)))"
proof -
  let ?es = "[(''e1'', engineBackingUp), (''e2'', engineOn ''v2'' ''n2'' True)]"
  have h1: "ListAndUpdateEnginesInProvidedCache emptyStore (cacheOf [] ?es []) = Inr (?es, cacheOf [] ?es [])"
    by (simp add: cache_defs cacheOf_def)
  have h2: "rangeValid [''e2'', ''e1''] ?es"
    by (simp add: rangeValid_def insert_commute)
  have h3: "checkAndRemoveEngineBackupStatus emptyStore [''e2'', ''e1''] (cacheOf [] ?es [])
            = Inr (cacheOf [] [(''e1'', engineOn ''v1'' ''n1'' False), (''e2'', engineOn ''v2'' ''n2'' True)] [])"
    by (simp add: checkAndRemoveEngineBackupStatus_def cache_defs example_defs)
  from checkAndRemoveEngineBackupStatus_clears
         [of emptyStore "[''e2'', ''e1'']" "cacheOf [] ?es []"] h1 h2 h3
  show ?thesis by blast
qed

section \<open>checkAndUpdateEngineActiveState: how the loop acts on the groups\<close>

subsection \<open>The volume lookup\<close>

lemma Get_cached:
  "cachedVolume rm x = Some v \<Longrightarrow> GetVolumeFromProvidedCache lhc rm x = Inr (v, rm)"
  by (simp add: GetVolumeFromProvidedCache_def)

lemma Get_effect:
  assumes "GetVolumeFromProvidedCache lhc rm x = Inr (v, rm')"
  shows "cachedVolume rm' x = Some v"
    and "cachedVolume rm n = Some u \<Longrightarrow> cachedVolume rm' n = Some u"
    and "engines rm' = engines rm" and "backups rm' = backups rm"
    and "cachedVolume rm' n = (if n = x then Some v else cachedVolume rm n)"
  using assms
  by (auto simp: GetVolumeFromProvidedCache_def cachedVolume_def update_conv'
           split: option.splits sum.splits if_splits)

lemma volumeFor_alt:
  "volumeFor lhc rm n =
     (case cachedVolume rm n of
        Some v \<Rightarrow> Inr v
      | None \<Rightarrow> (case GetVolume lhc n of
                   Inl err \<Rightarrow> Inl err
                 | Inr None \<Rightarrow> Inl (NotFound n)
                 | Inr (Some v) \<Rightarrow> Inr v))"
  by (simp add: volumeFor_def GetVolumeFromProvidedCache_def split: option.splits sum.splits)

lemma Get_volumeFor:
  assumes "GetVolumeFromProvidedCache lhc rm x = Inr (v, rm')"
  shows "volumeFor lhc rm' = volumeFor lhc rm"
proof
  fix n
  show "volumeFor lhc rm' n = volumeFor lhc rm n"
  proof (cases "n = x")
    case True
    with assms Get_effect(1)[OF assms] show ?thesis
      by (simp add: volumeFor_def Get_cached)
  next
    case False
    with Get_effect(5)[OF assms, of n] show ?thesis
      by (simp add: volumeFor_alt)
  qed
qed

lemma setActive_fun: "(\<lambda>e. e\<lparr>Engine_Spec_Active := True\<rparr>) = setActive"
  by (simp add: fun_eq_iff setActive_def)

subsection \<open>One group\<close>

lemma updateEngineGroup_Inl:
  "updateEngineGroup lhc vn ks (rm, es) = Inl a \<longleftrightarrow>
   currentEngineOf (volumeFor lhc rm) es vn ks = Inl a"
  by (auto simp: updateEngineGroup_def currentEngineOf_def volumeFor_def
           split: sum.splits option.splits prod.splits if_splits)

lemma updateEngineGroup_Inr:
  assumes "updateEngineGroup lhc vn ks (rm, es) = Inr (rm', es')"
  shows "\<exists>c. currentEngineOf (volumeFor lhc rm) es vn ks = Inr c \<and> es' = activate c es"
    and "volumeFor lhc rm' = volumeFor lhc rm"
    and "engines rm' = engines rm" and "backups rm' = backups rm"
    and "cachedVolume rm n = Some u \<Longrightarrow> cachedVolume rm' n = Some u"
proof -
  show "\<exists>c. currentEngineOf (volumeFor lhc rm) es vn ks = Inr c \<and> es' = activate c es"
    using assms
    by (auto simp: updateEngineGroup_def currentEngineOf_def volumeFor_def activate_def setActive_fun
             split: sum.splits option.splits prod.splits if_splits)
  have "rm' = rm \<or> (\<exists>v. GetVolumeFromProvidedCache lhc rm vn = Inr (v, rm'))"
    using assms
    by (auto simp: updateEngineGroup_def split: sum.splits option.splits prod.splits if_splits)
  then show "volumeFor lhc rm' = volumeFor lhc rm"
    and "engines rm' = engines rm" and "backups rm' = backups rm"
    and "cachedVolume rm n = Some u \<Longrightarrow> cachedVolume rm' n = Some u"
    by (auto dest: Get_volumeFor Get_effect)
qed

lemma updateEngineGroup_total:
  assumes "currentEngineOf (volumeFor lhc rm) es vn ks = Inr c"
  shows "\<exists>rm'. updateEngineGroup lhc vn ks (rm, es) = Inr (rm', activate c es)"
proof (cases "updateEngineGroup lhc vn ks (rm, es)")
  case (Inl a)
  with assms show ?thesis by (simp add: updateEngineGroup_Inl)
next
  case (Inr s)
  obtain rm' es' where "s = (rm', es')" by (cases s)
  with Inr updateEngineGroup_Inr(1)[of lhc vn ks rm es rm' es'] assms show ?thesis by auto
qed

lemma currentEngineOf_mem:
  "currentEngineOf vf es vn ks = Inr (Some p) \<Longrightarrow> p \<in> set ks"
  by (cases ks) (auto simp: currentEngineOf_def find_Some_iff split: if_splits sum.splits)

lemma pointee_cong:
  "map_of es1 p = map_of es p \<Longrightarrow> pointee es1 P p = pointee es P p"
  by (simp add: pointee_def)

lemma currentEngineOf_cong:
  assumes "\<forall>p\<in>set ks. map_of es1 p = map_of es p"
  shows "currentEngineOf vf es1 vn ks = currentEngineOf vf es vn ks"
proof -
  have a: "list_ex (pointee es1 P) ks = list_ex (pointee es P) ks" for P
    using assms by (auto simp: list_ex_iff pointee_def)
  have b: "find (pointee es1 P) ks = find (pointee es P) ks" for P
    using assms by (intro find_cong) (auto simp: pointee_def)
  show ?thesis by (simp add: currentEngineOf_def a b split: sum.splits)
qed

lemma map_of_activate:
  "map_of (activate c es) p =
     (if c = Some p then map_option setActive (map_of es p) else map_of es p)"
  by (cases c) (auto simp: activate_def map_of_map_entry split: option.splits)

lemma step_preserves:
  assumes "updateEngineGroup lhc vn ks (rm, es) = Inr (rm1, es1)"
      and "set ks \<inter> set ks' = {}"
  shows "currentEngineOf (volumeFor lhc rm1) es1 vn' ks' = currentEngineOf (volumeFor lhc rm) es vn' ks'"
proof -
  from updateEngineGroup_Inr(1)[OF assms(1)] obtain c where
    c: "currentEngineOf (volumeFor lhc rm) es vn ks = Inr c" and es1: "es1 = activate c es"
    by blast
  have "\<forall>p\<in>set ks'. map_of es1 p = map_of es p"
  proof
    fix p assume "p \<in> set ks'"
    with assms(2) have "p \<notin> set ks" by auto
    with c have "c \<noteq> Some p" using currentEngineOf_mem by blast
    with es1 show "map_of es1 p = map_of es p" by (simp add: map_of_activate)
  qed
  then have "currentEngineOf (volumeFor lhc rm1) es1 vn' ks' = currentEngineOf (volumeFor lhc rm1) es vn' ks'"
    by (rule currentEngineOf_cong)
  with updateEngineGroup_Inr(2)[OF assms(1)] show ?thesis by simp
qed

subsection \<open>The loop over the groups\<close>

lemma rangeEngineGroups_effect:
  assumes "rangeEngineGroups lhc gs (rm, es) = Inr (rm', es')" and "disjointGroups gs"
  shows "map_of es' p =
           (if \<exists>(vn, ks) \<in> set gs. currentEngineOf (volumeFor lhc rm) es vn ks = Inr (Some p)
            then map_option setActive (map_of es p) else map_of es p)"
  using assms
proof (induction gs arbitrary: rm es)
  case Nil
  then show ?case by simp
next
  case (Cons g gs)
  obtain vn ks where g: "g = (vn, ks)" by (cases g)
  from Cons.prems g obtain rm1 es1 where
    step: "updateEngineGroup lhc vn ks (rm, es) = Inr (rm1, es1)"
    and rest: "rangeEngineGroups lhc gs (rm1, es1) = Inr (rm', es')"
    by (auto split: sum.splits)
  from updateEngineGroup_Inr(1)[OF step] obtain c where
    c: "currentEngineOf (volumeFor lhc rm) es vn ks = Inr c" and es1: "es1 = activate c es"
    by blast
  from Cons.prems g have dis: "\<forall>(vn', ks') \<in> set gs. set ks \<inter> set ks' = {}"
    and dgs: "disjointGroups gs" by auto
  have same: "currentEngineOf (volumeFor lhc rm1) es1 vn' ks' = currentEngineOf (volumeFor lhc rm) es vn' ks'"
    if "(vn', ks') \<in> set gs" for vn' ks'
    using step_preserves[OF step] dis that by blast
  have IH: "map_of es' p =
           (if \<exists>(vn, ks) \<in> set gs. currentEngineOf (volumeFor lhc rm) es vn ks = Inr (Some p)
            then map_option setActive (map_of es1 p) else map_of es1 p)"
    using Cons.IH[OF rest dgs] same by (auto split: prod.splits)
  show ?case
  proof (cases "\<exists>(vn, ks) \<in> set gs. currentEngineOf (volumeFor lhc rm) es vn ks = Inr (Some p)")
    case True
    then obtain vn' ks' where m: "(vn', ks') \<in> set gs"
      and ch: "currentEngineOf (volumeFor lhc rm) es vn' ks' = Inr (Some p)" by blast
    then have "p \<in> set ks'" using currentEngineOf_mem by blast
    with dis m have "p \<notin> set ks" by blast
    with c have "c \<noteq> Some p" using currentEngineOf_mem by blast
    with es1 have "map_of es1 p = map_of es p" by (simp add: map_of_activate)
    with IH True g show ?thesis by auto
  next
    case False
    with IH have "map_of es' p = map_of es1 p" by simp
    with es1 c False g show ?thesis by (auto simp: map_of_activate)
  qed
qed

lemma rangeEngineGroups_cache:
  assumes "rangeEngineGroups lhc gs (rm, es) = Inr (rm', es')"
  shows "volumeFor lhc rm' = volumeFor lhc rm"
    and "engines rm' = engines rm" and "backups rm' = backups rm"
    and "cachedVolume rm n = Some u \<Longrightarrow> cachedVolume rm' n = Some u"
  using assms
proof (induction gs arbitrary: rm es)
  case Nil
  { case 1 then show ?case by simp }
  { case 2 then show ?case by simp }
  { case 3 then show ?case by simp }
  { case 4 then show ?case by simp }
next
  case (Cons g gs)
  obtain vn ks where g: "g = (vn, ks)" by (cases g)
  { case 1
    from 1 g obtain rm1 es1 where
      step: "updateEngineGroup lhc vn ks (rm, es) = Inr (rm1, es1)"
      and rest: "rangeEngineGroups lhc gs (rm1, es1) = Inr (rm', es')"
      by (auto split: sum.splits)
    from Cons.IH(1)[OF rest] updateEngineGroup_Inr(2)[OF step] show ?case by simp }
  { case 2
    from 2 g obtain rm1 es1 where
      step: "updateEngineGroup lhc vn ks (rm, es) = Inr (rm1, es1)"
      and rest: "rangeEngineGroups lhc gs (rm1, es1) = Inr (rm', es')"
      by (auto split: sum.splits)
    from Cons.IH(2)[OF rest] updateEngineGroup_Inr(3)[OF step] show ?case by simp }
  { case 3
    from 3 g obtain rm1 es1 where
      step: "updateEngineGroup lhc vn ks (rm, es) = Inr (rm1, es1)"
      and rest: "rangeEngineGroups lhc gs (rm1, es1) = Inr (rm', es')"
      by (auto split: sum.splits)
    from Cons.IH(3)[OF rest] updateEngineGroup_Inr(4)[OF step] show ?case by simp }
  { case 4
    from 4 g obtain rm1 es1 where
      step: "updateEngineGroup lhc vn ks (rm, es) = Inr (rm1, es1)"
      and rest: "rangeEngineGroups lhc gs (rm1, es1) = Inr (rm', es')"
      by (auto split: sum.splits)
    from Cons.IH(4)[OF _ rest] updateEngineGroup_Inr(5)[OF step] 4 show ?case by blast }
qed


lemma rangeEngineGroups_Inl:
  assumes "rangeEngineGroups lhc gs (rm, es) = Inl a" and "disjointGroups gs"
  shows "\<exists>(vn, ks) \<in> set gs. currentEngineOf (volumeFor lhc rm) es vn ks = Inl a"
  using assms
proof (induction gs arbitrary: rm es)
  case Nil
  then show ?case by simp
next
  case (Cons g gs)
  obtain vn ks where g: "g = (vn, ks)" by (cases g)
  show ?case
  proof (cases "updateEngineGroup lhc vn ks (rm, es)")
    case (Inl b)
    with Cons.prems g have "b = a" by simp
    with Inl have "currentEngineOf (volumeFor lhc rm) es vn ks = Inl a"
      by (simp add: updateEngineGroup_Inl)
    with g show ?thesis by auto
  next
    case (Inr s)
    obtain rm1 es1 where s: "s = (rm1, es1)" by (cases s)
    with Inr have step: "updateEngineGroup lhc vn ks (rm, es) = Inr (rm1, es1)" by simp
    with Cons.prems g have rest: "rangeEngineGroups lhc gs (rm1, es1) = Inl a" by simp
    from Cons.prems g have dis: "\<forall>(vn', ks') \<in> set gs. set ks \<inter> set ks' = {}"
      and dgs: "disjointGroups gs" by auto
    from Cons.IH[OF rest dgs] obtain vn' ks' where m: "(vn', ks') \<in> set gs"
      and f: "currentEngineOf (volumeFor lhc rm1) es1 vn' ks' = Inl a" by blast
    from dis m have "set ks \<inter> set ks' = {}" by blast
    from step_preserves[OF step this] f
    have "currentEngineOf (volumeFor lhc rm) es vn' ks' = Inl a" by simp
    with m show ?thesis by auto
  qed
qed

lemma rangeEngineGroups_Inr_all:
  assumes "rangeEngineGroups lhc gs (rm, es) = Inr (rm', es')" and "disjointGroups gs"
      and "(vn, ks) \<in> set gs"
  shows "\<exists>c. currentEngineOf (volumeFor lhc rm) es vn ks = Inr c"
  using assms
proof (induction gs arbitrary: rm es)
  case Nil
  then show ?case by simp
next
  case (Cons g gs)
  obtain vn0 ks0 where g: "g = (vn0, ks0)" by (cases g)
  from Cons.prems g obtain rm1 es1 where
    step: "updateEngineGroup lhc vn0 ks0 (rm, es) = Inr (rm1, es1)"
    and rest: "rangeEngineGroups lhc gs (rm1, es1) = Inr (rm', es')"
    by (auto split: sum.splits)
  show ?case
  proof (cases "(vn, ks) = (vn0, ks0)")
    case True
    with updateEngineGroup_Inr(1)[OF step] show ?thesis by auto
  next
    case False
    with Cons.prems g have m: "(vn, ks) \<in> set gs" by auto
    from Cons.prems g have dis: "\<forall>(vn', ks') \<in> set gs. set ks0 \<inter> set ks' = {}"
      and dgs: "disjointGroups gs" by auto
    from dis m have "set ks0 \<inter> set ks = {}" by blast
    from step_preserves[OF step this] Cons.IH[OF rest dgs m] show ?thesis by simp
  qed
qed

subsection \<open>The groups that the two ranges produce\<close>

lemma rangeOver_Nil [simp]: "rangeOver [] m = []"
  by (simp add: rangeOver_def List.map_filter_def)

lemma rangeOver_Cons:
  "rangeOver (k # ks) m =
     (case map_of m k of None \<Rightarrow> rangeOver ks m | Some v \<Rightarrow> (k, v) # rangeOver ks m)"
  by (simp add: rangeOver_def List.map_filter_def split: option.splits)

lemma set_rangeOver:
  "(k, v) \<in> set (rangeOver order m) \<longleftrightarrow> k \<in> set order \<and> map_of m k = Some v"
  by (induction order) (auto simp: rangeOver_Cons split: option.splits)

lemma map_of_append_at:
  "map_of (append_at k x m) =
     (map_of m)(k \<mapsto> (case map_of m k of None \<Rightarrow> [] | Some xs \<Rightarrow> xs) @ [x])"
  by (simp add: append_at_def update_conv')

lemma fold_volumeEngineMap:
  "map_of (fold (\<lambda>(p, e) vem.
                   if Engine_Spec_VolumeName e = [] then vem
                   else append_at (Engine_Spec_VolumeName e) p vem) visited acc) vn =
     (if vn = [] \<or> filter (\<lambda>(p, e). Engine_Spec_VolumeName e = vn) visited = []
      then map_of acc vn
      else Some ((case map_of acc vn of None \<Rightarrow> [] | Some xs \<Rightarrow> xs) @
                  map fst (filter (\<lambda>(p, e). Engine_Spec_VolumeName e = vn) visited)))"
proof (induction visited arbitrary: acc)
  case Nil
  then show ?case by simp
next
  case (Cons x visited)
  obtain p e where x: "x = (p, e)" by (cases x)
  show ?case
    unfolding x by (simp add: Cons.IH map_of_append_at)
qed

lemma groupOf_rangeOver:
  "map fst (filter (\<lambda>(p, e). Engine_Spec_VolumeName e = vn) (rangeOver eo es)) = groupOf es eo vn"
  by (induction eo) (auto simp: rangeOver_Cons groupOf_def pointee_def split: option.splits)

lemma volumeEngineMap_lookup:
  "map_of (volumeEngineMap (rangeOver eo es)) vn =
     (if vn \<noteq> [] \<and> groupOf es eo vn \<noteq> [] then Some (groupOf es eo vn) else None)"
proof -
  have "filter (\<lambda>(p, e). Engine_Spec_VolumeName e = vn) (rangeOver eo es) = [] \<longleftrightarrow>
        groupOf es eo vn = []"
    using groupOf_rangeOver[of vn eo es] by (metis map_is_Nil_conv)
  then show ?thesis
    by (simp add: volumeEngineMap_def fold_volumeEngineMap groupOf_rangeOver)
qed

lemma groups_mem:
  "(vn, ks) \<in> set (rangeOver vo (volumeEngineMap (rangeOver eo es))) \<longleftrightarrow>
   vn \<in> set vo \<and> vn \<noteq> [] \<and> ks \<noteq> [] \<and> ks = groupOf es eo vn"
  by (auto simp: set_rangeOver volumeEngineMap_lookup split: if_splits)

lemma groupOf_disjoint:
  "vn \<noteq> vn' \<Longrightarrow> set (groupOf es eo vn) \<inter> set (groupOf es eo vn') = {}"
  by (auto simp: groupOf_def pointee_def split: option.splits)

lemma groups_disjoint:
  "distinct vo \<Longrightarrow> disjointGroups (rangeOver vo (volumeEngineMap (rangeOver eo es)))"
proof (induction vo)
  case Nil
  then show ?case by simp
next
  case (Cons vn vo)
  show ?case
  proof (cases "map_of (volumeEngineMap (rangeOver eo es)) vn")
    case None
    with Cons show ?thesis by (simp add: rangeOver_Cons)
  next
    case (Some ks)
    then have ks: "ks = groupOf es eo vn"
      by (simp add: volumeEngineMap_lookup split: if_splits)
    have "set ks \<inter> set ks' = {}"
      if "(vn', ks') \<in> set (rangeOver vo (volumeEngineMap (rangeOver eo es)))" for vn' ks'
    proof -
      from that have "vn' \<in> set vo" and "ks' = groupOf es eo vn'"
        by (simp_all add: groups_mem)
      with Cons.prems ks show ?thesis
        using groupOf_disjoint[of vn vn'] by auto
    qed
    with Some Cons show ?thesis by (auto simp: rangeOver_Cons)
  qed
qed

lemma rangeValid_groups:
  "rangeValid vo (volumeEngineMap (rangeOver eo es)) \<Longrightarrow>
   vn \<in> set vo \<longleftrightarrow> vn \<noteq> [] \<and> groupOf es eo vn \<noteq> []"
proof -
  assume v: "rangeValid vo (volumeEngineMap (rangeOver eo es))"
  have "vn \<in> fst ` set (volumeEngineMap (rangeOver eo es)) \<longleftrightarrow>
        map_of (volumeEngineMap (rangeOver eo es)) vn \<noteq> None"
    by (simp add: map_of_eq_None_iff)
  with v show ?thesis
    by (simp add: rangeValid_def volumeEngineMap_lookup)
qed

lemma rangeValid_groupOf:
  assumes "rangeValid eo es"
  shows "distinct (groupOf es eo vn)"
    and "p \<in> set (groupOf es eo vn) \<longleftrightarrow> pointee es (\<lambda>e. Engine_Spec_VolumeName e = vn) p"
proof -
  show "distinct (groupOf es eo vn)"
    using assms by (simp add: groupOf_def rangeValid_def)
  have "p \<in> set eo" if "pointee es (\<lambda>e. Engine_Spec_VolumeName e = vn) p"
  proof -
    from that obtain e where "map_of es p = Some e"
      by (auto simp: pointee_def split: option.splits)
    then have "p \<in> fst ` set es" by (auto dest!: map_of_SomeD intro: rev_image_eqI)
    with assms show ?thesis by (simp add: rangeValid_def)
  qed
  then show "p \<in> set (groupOf es eo vn) \<longleftrightarrow> pointee es (\<lambda>e. Engine_Spec_VolumeName e = vn) p"
    by (auto simp: groupOf_def)
qed

subsection \<open>The whole function\<close>

lemma List_engines_cache:
  assumes "ListAndUpdateEnginesInProvidedCache lhc rm = Inr (es, rm1)"
  shows "engines rm1 = Some es" and "volumes rm1 = volumes rm" and "backups rm1 = backups rm"
    and "cachedVolume rm1 = cachedVolume rm" and "volumeFor lhc rm1 = volumeFor lhc rm"
proof -
  from assms show a: "engines rm1 = Some es" and b: "volumes rm1 = volumes rm"
    and "backups rm1 = backups rm"
    by (auto simp: ListAndUpdateEnginesInProvidedCache_def split: option.splits sum.splits)
  from b show c: "cachedVolume rm1 = cachedVolume rm"
    by (simp add: fun_eq_iff cachedVolume_def)
  then show "volumeFor lhc rm1 = volumeFor lhc rm"
    by (simp add: fun_eq_iff volumeFor_alt)
qed

lemma run_Inr:
  assumes "ListAndUpdateEnginesInProvidedCache lhc rm = Inr (es, rm1)"
      and "checkAndUpdateEngineActiveState lhc eo vo rm = Inr rm'"
  obtains rm2 es' where
    "rangeEngineGroups lhc (rangeOver vo (volumeEngineMap (rangeOver eo es))) (rm1, es)
       = Inr (rm2, es')"
    "rm' = rm2\<lparr>engines := Some es'\<rparr>"
  using assms
  by (auto simp: checkAndUpdateEngineActiveState_def split: sum.splits prod.splits)

lemma run_Inl:
  assumes "ListAndUpdateEnginesInProvidedCache lhc rm = Inr (es, rm1)"
  shows "checkAndUpdateEngineActiveState lhc eo vo rm = Inl a \<longleftrightarrow>
         rangeEngineGroups lhc (rangeOver vo (volumeEngineMap (rangeOver eo es))) (rm1, es) = Inl a"
  using assms
  by (auto simp: checkAndUpdateEngineActiveState_def split: sum.splits prod.splits)

lemma run_effect:
  assumes l: "ListAndUpdateEnginesInProvidedCache lhc rm = Inr (es, rm1)"
      and d: "distinct vo"
      and r: "checkAndUpdateEngineActiveState lhc eo vo rm = Inr rm'"
  shows "\<exists>es'. engines rm' = Some es' \<and>
           (\<forall>p. map_of es' p =
              (if \<exists>vn \<in> set vo. vn \<noteq> [] \<and>
                    currentEngineOf (volumeFor lhc rm) es vn (groupOf es eo vn) = Inr (Some p)
               then map_option setActive (map_of es p) else map_of es p))"
proof -
  let ?gs = "rangeOver vo (volumeEngineMap (rangeOver eo es))"
  from l r obtain rm2 es' where
    run: "rangeEngineGroups lhc ?gs (rm1, es) = Inr (rm2, es')"
    and rm': "rm' = rm2\<lparr>engines := Some es'\<rparr>"
    by (rule run_Inr)
  have vf: "volumeFor lhc rm1 = volumeFor lhc rm"
    using l by (rule List_engines_cache)
  have cond: "(\<exists>(vn, ks) \<in> set ?gs. currentEngineOf (volumeFor lhc rm1) es vn ks = Inr (Some p)) \<longleftrightarrow>
              (\<exists>vn \<in> set vo. vn \<noteq> [] \<and>
                 currentEngineOf (volumeFor lhc rm) es vn (groupOf es eo vn) = Inr (Some p))" for p
  proof
    assume "\<exists>(vn, ks) \<in> set ?gs. currentEngineOf (volumeFor lhc rm1) es vn ks = Inr (Some p)"
    then show "\<exists>vn \<in> set vo. vn \<noteq> [] \<and>
                 currentEngineOf (volumeFor lhc rm) es vn (groupOf es eo vn) = Inr (Some p)"
      unfolding vf by (auto simp: groups_mem)
  next
    assume "\<exists>vn \<in> set vo. vn \<noteq> [] \<and>
                 currentEngineOf (volumeFor lhc rm) es vn (groupOf es eo vn) = Inr (Some p)"
    then obtain vn where vn: "vn \<in> set vo" "vn \<noteq> []"
      and c: "currentEngineOf (volumeFor lhc rm) es vn (groupOf es eo vn) = Inr (Some p)"
      by blast
    from c have "p \<in> set (groupOf es eo vn)" by (rule currentEngineOf_mem)
    then have "groupOf es eo vn \<noteq> []" by auto
    with vn have "(vn, groupOf es eo vn) \<in> set ?gs" by (simp add: groups_mem)
    with c show "\<exists>(vn, ks) \<in> set ?gs. currentEngineOf (volumeFor lhc rm1) es vn ks = Inr (Some p)"
      unfolding vf by blast
  qed
  have "map_of es' p =
          (if \<exists>vn \<in> set vo. vn \<noteq> [] \<and>
                currentEngineOf (volumeFor lhc rm) es vn (groupOf es eo vn) = Inr (Some p)
           then map_option setActive (map_of es p) else map_of es p)" for p
    using rangeEngineGroups_effect[OF run groups_disjoint[OF d], of p] cond[of p] by simp
  with rm' show ?thesis by simp
qed

lemma run_group_ok:
  assumes l: "ListAndUpdateEnginesInProvidedCache lhc rm = Inr (es, rm1)"
      and d: "distinct vo"
      and r: "checkAndUpdateEngineActiveState lhc eo vo rm = Inr rm'"
      and vn: "vn \<in> set vo" "vn \<noteq> []" "groupOf es eo vn \<noteq> []"
  shows "\<exists>c. currentEngineOf (volumeFor lhc rm) es vn (groupOf es eo vn) = Inr c"
proof -
  let ?gs = "rangeOver vo (volumeEngineMap (rangeOver eo es))"
  from l r obtain rm2 es' where
    run: "rangeEngineGroups lhc ?gs (rm1, es) = Inr (rm2, es')"
    by (rule run_Inr)
  from vn have "(vn, groupOf es eo vn) \<in> set ?gs" by (simp add: groups_mem)
  from rangeEngineGroups_Inr_all[OF run groups_disjoint[OF d] this]
  show ?thesis using List_engines_cache(5)[OF l] by simp
qed

lemma run_error:
  assumes l: "ListAndUpdateEnginesInProvidedCache lhc rm = Inr (es, rm1)"
      and d: "distinct vo"
      and r: "checkAndUpdateEngineActiveState lhc eo vo rm = Inl a"
  shows "\<exists>vn \<in> set vo. vn \<noteq> [] \<and> groupOf es eo vn \<noteq> [] \<and>
           currentEngineOf (volumeFor lhc rm) es vn (groupOf es eo vn) = Inl a"
proof -
  let ?gs = "rangeOver vo (volumeEngineMap (rangeOver eo es))"
  from l r have "rangeEngineGroups lhc ?gs (rm1, es) = Inl a" by (simp add: run_Inl)
  from rangeEngineGroups_Inl[OF this groups_disjoint[OF d]]
  show ?thesis using List_engines_cache(5)[OF l] by (auto simp: groups_mem)
qed

text \<open>What the selection does when the volume is found.\<close>

lemma currentEngineOf_lookup:
  assumes "\<not> list_ex (pointee es Engine_Spec_Active) ks" and "length ks \<noteq> 1"
  shows "currentEngineOf vf es vn ks =
           (case vf vn of Inl err \<Rightarrow> Inl (Err err)
            | Inr v \<Rightarrow> Inr (find (pointee es (nodeMatches v)) ks))"
  using assms by (simp add: currentEngineOf_def)

lemma group_chosen_unique:
  assumes "currentEngineOf vf es vn' (groupOf es eo vn') = Inr (Some p)"
      and "p \<in> set (groupOf es eo vn)"
  shows "vn' = vn"
proof (rule ccontr)
  assume "vn' \<noteq> vn"
  from assms(1) have "p \<in> set (groupOf es eo vn')" by (rule currentEngineOf_mem)
  with assms(2) groupOf_disjoint[OF \<open>vn' \<noteq> vn\<close>, of es eo] show False by auto
qed

text \<open>The effect on one group of a run that returns.\<close>

lemma run_group_effect:
  assumes l: "ListAndUpdateEnginesInProvidedCache lhc rm = Inr (es, rm1)"
      and vv: "rangeValid vo (volumeEngineMap (rangeOver eo es))"
      and r: "checkAndUpdateEngineActiveState lhc eo vo rm = Inr rm'"
      and vn: "vn \<noteq> []" "groupOf es eo vn \<noteq> []"
  shows "\<exists>c es'. currentEngineOf (volumeFor lhc rm) es vn (groupOf es eo vn) = Inr c \<and>
           engines rm' = Some es' \<and>
           (\<forall>p \<in> set (groupOf es eo vn).
              map_of es' p = (if c = Some p then map_option setActive (map_of es p) else map_of es p))"
proof -
  from vv have d: "distinct vo" by (simp add: rangeValid_def)
  from vv vn have m: "vn \<in> set vo" by (simp add: rangeValid_groups)
  from run_group_ok[OF l d r m vn] obtain c where
    c: "currentEngineOf (volumeFor lhc rm) es vn (groupOf es eo vn) = Inr c" by blast
  from run_effect[OF l d r] obtain es' where es': "engines rm' = Some es'"
    and eff: "\<And>p. map_of es' p =
              (if \<exists>vn \<in> set vo. vn \<noteq> [] \<and>
                    currentEngineOf (volumeFor lhc rm) es vn (groupOf es eo vn) = Inr (Some p)
               then map_option setActive (map_of es p) else map_of es p)"
    by blast
  have "map_of es' p = (if c = Some p then map_option setActive (map_of es p) else map_of es p)"
    if p: "p \<in> set (groupOf es eo vn)" for p
  proof -
    have "(\<exists>vn' \<in> set vo. vn' \<noteq> [] \<and>
             currentEngineOf (volumeFor lhc rm) es vn' (groupOf es eo vn') = Inr (Some p))
          \<longleftrightarrow> c = Some p"
    proof
      assume "\<exists>vn' \<in> set vo. vn' \<noteq> [] \<and>
             currentEngineOf (volumeFor lhc rm) es vn' (groupOf es eo vn') = Inr (Some p)"
      then obtain vn' where
        c': "currentEngineOf (volumeFor lhc rm) es vn' (groupOf es eo vn') = Inr (Some p)"
        by blast
      from group_chosen_unique[OF c' p] have "vn' = vn" .
      with c c' show "c = Some p" by simp
    next
      assume "c = Some p"
      with c m vn show "\<exists>vn' \<in> set vo. vn' \<noteq> [] \<and>
             currentEngineOf (volumeFor lhc rm) es vn' (groupOf es eo vn') = Inr (Some p)"
        by blast
    qed
    with eff[of p] show ?thesis by simp
  qed
  with c es' show ?thesis by blast
qed

subsection \<open>What a run leaves behind\<close>

lemma currentEngineOf_Inl:
  assumes "currentEngineOf vf es vn ks = Inl a"
  shows "\<exists>err. a = Err err \<and> vf vn = Inl err"
  using assms by (auto simp: currentEngineOf_def split: if_splits sum.splits)

lemma currentEngineOf_Inl_group:
  assumes "currentEngineOf vf es vn ks = Inl a"
  shows "\<not> list_ex (pointee es Engine_Spec_Active) ks" and "length ks \<noteq> 1"
  using assms by (auto simp: currentEngineOf_def split: if_splits sum.splits)

lemma groupOf_points:
  "p \<in> set (groupOf es eo vn) \<Longrightarrow> \<exists>e. map_of es p = Some e \<and> Engine_Spec_VolumeName e = vn"
  by (auto simp: groupOf_def pointee_def split: option.splits)

text \<open>A run changes at most the active flag of an engine.\<close>

lemma run_frame:
  assumes l: "ListAndUpdateEnginesInProvidedCache lhc rm = Inr (es, rm1)"
      and d: "distinct vo"
      and r: "checkAndUpdateEngineActiveState lhc eo vo rm = Inr rm'"
      and es': "engines rm' = Some es'"
  shows "map_of es' p = map_of es p \<or> map_of es' p = map_option setActive (map_of es p)"
  using run_effect[OF l d r] es' by (auto split: if_splits)

lemma run_same_groups:
  assumes l: "ListAndUpdateEnginesInProvidedCache lhc rm = Inr (es, rm1)"
      and d: "distinct vo"
      and r: "checkAndUpdateEngineActiveState lhc eo vo rm = Inr rm'"
      and es': "engines rm' = Some es'"
  shows "pointee es' (\<lambda>e. Engine_Spec_VolumeName e = vn) p
         = pointee es (\<lambda>e. Engine_Spec_VolumeName e = vn) p"
    and "groupOf es' order vn = groupOf es order vn"
    and "fst ` set es' = fst ` set es"
    and "pointee es Engine_Spec_Active p \<Longrightarrow> pointee es' Engine_Spec_Active p"
proof -
  have f: "map_of es' q = map_of es q \<or> map_of es' q = map_option setActive (map_of es q)" for q
    using run_frame[OF l d r es'] .
  show g: "pointee es' (\<lambda>e. Engine_Spec_VolumeName e = vn) q
         = pointee es (\<lambda>e. Engine_Spec_VolumeName e = vn) q" for q
    using f[of q] by (auto simp: pointee_def setActive_def split: option.splits)
  then show "groupOf es' order vn = groupOf es order vn"
    by (simp add: groupOf_def cong: filter_cong)
  have "map_of es' q = None \<longleftrightarrow> map_of es q = None" for q
    using f[of q] by auto
  then have "dom (map_of es') = dom (map_of es)"
    by (simp add: dom_def)
  then show "fst ` set es' = fst ` set es"
    by (simp add: dom_map_of_conv_image_fst)
  show "pointee es Engine_Spec_Active p \<Longrightarrow> pointee es' Engine_Spec_Active p"
    using f[of p] by (auto simp: pointee_def setActive_def split: option.splits)
qed

lemma one_activated:
  assumes "distinct ks" and "q \<in> set ks"
      and "\<not> list_ex (pointee es Engine_Spec_Active) ks"
      and "\<forall>p \<in> set ks. \<exists>e. map_of es p = Some e"
      and "\<forall>p \<in> set ks. map_of es' p =
              (if Some q = Some p then map_option setActive (map_of es p) else map_of es p)"
  shows "length (filter (pointee es' Engine_Spec_Active) ks) = 1"
proof -
  have "pointee es' Engine_Spec_Active p \<longleftrightarrow> p = q" if "p \<in> set ks" for p
    using assms(3,4,5) that
    by (cases "p = q") (auto simp: pointee_def list_ex_iff setActive_def split: option.splits)
  then have "filter (pointee es' Engine_Spec_Active) ks = filter (\<lambda>p. p = q) ks"
    by (simp cong: filter_cong)
  moreover have "{p. p = q} \<inter> set ks = {q}" using assms(2) by auto
  ultimately show ?thesis
    using assms(1) by (simp add: distinct_length_filter)
qed

lemma step_agrees:
  assumes "updateEngineGroup lhc vn ks (rm, es) = Inr (rm1, es1)"
      and "set ks \<inter> set ks' = {}" and "p \<in> set ks'"
  shows "map_of es1 p = map_of es p"
proof -
  from updateEngineGroup_Inr(1)[OF assms(1)] obtain c where
    c: "currentEngineOf (volumeFor lhc rm) es vn ks = Inr c" and es1: "es1 = activate c es"
    by blast
  from assms(2,3) have "p \<notin> set ks" by auto
  with c have "c \<noteq> Some p" using currentEngineOf_mem by blast
  with es1 show ?thesis by (simp add: map_of_activate)
qed

lemma step_caches:
  assumes "updateEngineGroup lhc vn ks (rm, es) = Inr (rm1, es1)"
      and "\<not> list_ex (pointee es Engine_Spec_Active) ks" and "length ks \<noteq> 1"
  shows "\<exists>v. cachedVolume rm1 vn = Some v"
  using assms
  by (auto simp: updateEngineGroup_def split: sum.splits prod.splits option.splits dest: Get_effect(1))

lemma rangeEngineGroups_caches:
  assumes "rangeEngineGroups lhc gs (rm, es) = Inr (rm', es')" and "disjointGroups gs"
      and "(vn, ks) \<in> set gs"
      and "\<not> list_ex (pointee es Engine_Spec_Active) ks" and "length ks \<noteq> 1"
  shows "\<exists>v. cachedVolume rm' vn = Some v"
  using assms
proof (induction gs arbitrary: rm es)
  case Nil
  then show ?case by simp
next
  case (Cons g gs)
  obtain vn0 ks0 where g: "g = (vn0, ks0)" by (cases g)
  from Cons.prems g obtain rm1 es1 where
    step: "updateEngineGroup lhc vn0 ks0 (rm, es) = Inr (rm1, es1)"
    and rest: "rangeEngineGroups lhc gs (rm1, es1) = Inr (rm', es')"
    by (auto split: sum.splits)
  show ?case
  proof (cases "(vn, ks) = (vn0, ks0)")
    case True
    with step_caches[OF step] Cons.prems obtain v where "cachedVolume rm1 vn = Some v" by auto
    from rangeEngineGroups_cache(4)[OF rest this] show ?thesis by blast
  next
    case False
    with Cons.prems g have m: "(vn, ks) \<in> set gs" by auto
    from Cons.prems g have dis: "\<forall>(vn', ks') \<in> set gs. set ks0 \<inter> set ks' = {}"
      and dgs: "disjointGroups gs" by auto
    from dis m have "set ks0 \<inter> set ks = {}" by blast
    then have "\<forall>p \<in> set ks. map_of es1 p = map_of es p"
      using step_agrees[OF step] by blast
    then have "list_ex (pointee es1 Engine_Spec_Active) ks = list_ex (pointee es Engine_Spec_Active) ks"
      by (auto simp: list_ex_iff pointee_def)
    with Cons.prems have "\<not> list_ex (pointee es1 Engine_Spec_Active) ks" by simp
    from Cons.IH[OF rest dgs m this Cons.prems(5)] show ?thesis .
  qed
qed

lemma rangeEngineGroups_stable:
  assumes "\<forall>(vn, ks) \<in> set gs. updateEngineGroup lhc vn ks s = Inr s"
  shows "rangeEngineGroups lhc gs s = Inr s"
  using assms by (induction gs) auto

lemma updateEngineGroup_skip:
  "list_ex (pointee es Engine_Spec_Active) ks \<Longrightarrow> updateEngineGroup lhc vn ks (rm, es) = Inr (rm, es)"
  by (simp add: updateEngineGroup_def)

lemma updateEngineGroup_unresolved:
  assumes "length ks \<noteq> 1" and "cachedVolume rm vn = Some v"
      and "\<forall>p \<in> set ks. \<not> pointee es (nodeMatches v) p"
  shows "updateEngineGroup lhc vn ks (rm, es) = Inr (rm, es)"
proof -
  from assms(3) have "find (pointee es (nodeMatches v)) ks = None"
    by (simp add: find_None_iff)
  with assms(1,2) show ?thesis
    by (simp add: updateEngineGroup_def Get_cached)
qed

subsection \<open>The groups of a run, by volume name\<close>

lemmas engines_defs =
  checkAndUpdateEngineActiveState_def cache_defs rangeOver_def List.map_filter_def
  volumeEngineMap_def append_at_def updateEngineGroup_def pointee_def nodeMatches_def
  GetVolumeFromProvidedCache_def cachedVolume_def groupOf_def volumeFor_def rangeValid_def

lemma group_first_match:
  assumes "ListAndUpdateEnginesInProvidedCache lhc rm = Inr (es, rm1)"
      and "rangeValid engineOrder es"
      and "rangeValid volumeOrder (volumeEngineMap (rangeOver engineOrder es))"
      and "checkAndUpdateEngineActiveState lhc engineOrder volumeOrder rm = Inr rm'"
      and "volumeName \<noteq> []"
      and "1 < length (groupOf es engineOrder volumeName)"
      and "\<not> list_ex (pointee es Engine_Spec_Active) (groupOf es engineOrder volumeName)"
    shows "\<exists>v es'. volumeFor lhc rm volumeName = Inr v \<and> engines rm' = Some es' \<and>
             (\<forall>p \<in> set (groupOf es engineOrder volumeName).
                map_of es' p =
                  (if find (pointee es (nodeMatches v)) (groupOf es engineOrder volumeName) = Some p
                   then map_option (\<lambda>e. e\<lparr>Engine_Spec_Active := True\<rparr>) (map_of es p)
                   else map_of es p))"
proof -
  let ?ks = "groupOf es engineOrder volumeName"
  from assms(6) have ne: "?ks \<noteq> []" and len: "length ?ks \<noteq> 1" by auto
  from run_group_effect[OF assms(1,3,4,5) ne] obtain c es' where
    c: "currentEngineOf (volumeFor lhc rm) es volumeName ?ks = Inr c"
    and es': "engines rm' = Some es'"
    and eff: "\<forall>p \<in> set ?ks.
                map_of es' p = (if c = Some p then map_option setActive (map_of es p) else map_of es p)"
    by blast
  from c currentEngineOf_lookup[OF assms(7) len, of "volumeFor lhc rm" volumeName]
  obtain v where v: "volumeFor lhc rm volumeName = Inr v"
    and cv: "c = find (pointee es (nodeMatches v)) ?ks"
    by (auto split: sum.splits)
  from eff cv have "\<forall>p \<in> set ?ks.
          map_of es' p =
            (if find (pointee es (nodeMatches v)) ?ks = Some p
             then map_option (\<lambda>e. e\<lparr>Engine_Spec_Active := True\<rparr>) (map_of es p)
             else map_of es p)"
    by (simp add: setActive_fun)
  with v es' show ?thesis by blast
qed

lemma group_missing_volume:
  assumes "ListAndUpdateEnginesInProvidedCache lhc rm = Inr (es, rm1)"
      and "rangeValid engineOrder es"
      and "rangeValid volumeOrder (volumeEngineMap (rangeOver engineOrder es))"
      and "volumeName \<noteq> []"
      and "1 < length (groupOf es engineOrder volumeName)"
      and "\<not> list_ex (pointee es Engine_Spec_Active) (groupOf es engineOrder volumeName)"
      and "cachedVolume rm volumeName = None"
      and "GetVolume lhc volumeName = Inr None"
    shows "\<exists>err name. checkAndUpdateEngineActiveState lhc engineOrder volumeOrder rm = Inl (Err err)
                     \<and> volumeFor lhc rm name = Inl err"
proof -
  let ?ks = "groupOf es engineOrder volumeName"
  from assms(5) have ne: "?ks \<noteq> []" and len: "length ?ks \<noteq> 1" by auto
  from assms(3) have d: "distinct volumeOrder" by (simp add: rangeValid_def)
  from assms(3,4) ne have m: "volumeName \<in> set volumeOrder" by (simp add: rangeValid_groups)
  from assms(7,8) have "volumeFor lhc rm volumeName = Inl (NotFound volumeName)"
    by (simp add: volumeFor_alt)
  with assms(6) len
  have fail: "currentEngineOf (volumeFor lhc rm) es volumeName ?ks = Inl (Err (NotFound volumeName))"
    by (simp add: currentEngineOf_lookup)
  show ?thesis
  proof (cases "checkAndUpdateEngineActiveState lhc engineOrder volumeOrder rm")
    case (Inr rm')
    from run_group_ok[OF assms(1) d Inr m assms(4) ne] fail show ?thesis by simp
  next
    case (Inl a)
    from run_error[OF assms(1) d Inl] obtain name where
      "currentEngineOf (volumeFor lhc rm) es name (groupOf es engineOrder name) = Inl a"
      by blast
    from currentEngineOf_Inl[OF this] Inl show ?thesis by blast
  qed
qed

lemma group_unresolved:
  assumes "ListAndUpdateEnginesInProvidedCache lhc rm = Inr (es, rm1)"
      and "rangeValid engineOrder es"
      and "rangeValid volumeOrder (volumeEngineMap (rangeOver engineOrder es))"
      and "volumeName \<noteq> []"
      and "1 < length (groupOf es engineOrder volumeName)"
      and "\<not> list_ex (pointee es Engine_Spec_Active) (groupOf es engineOrder volumeName)"
      and "volumeFor lhc rm volumeName = Inr v"
      and "\<not> list_ex (pointee es (\<lambda>e. Engine_Spec_NodeID e = Volume_Spec_NodeID v \<or>
                                      Engine_Spec_NodeID e = Volume_Status_CurrentNodeID v \<or>
                                      Engine_Spec_NodeID e = Volume_Status_PendingNodeID v))
              (groupOf es engineOrder volumeName)"
    shows "(\<forall>rm'. checkAndUpdateEngineActiveState lhc engineOrder volumeOrder rm = Inr rm' \<longrightarrow>
              (\<exists>es'. engines rm' = Some es' \<and>
                 (\<forall>p \<in> set (groupOf es engineOrder volumeName).
                    map_of es' p = map_of es p \<and> \<not> pointee es' Engine_Spec_Active p)))
         \<and> (\<forall>a. checkAndUpdateEngineActiveState lhc engineOrder volumeOrder rm = Inl a \<longrightarrow>
              (\<exists>name err. name \<noteq> volumeName \<and> name \<noteq> [] \<and>
                 1 < length (groupOf es engineOrder name) \<and>
                 \<not> list_ex (pointee es Engine_Spec_Active) (groupOf es engineOrder name) \<and>
                 a = Err err \<and> volumeFor lhc rm name = Inl err))
         \<and> ((\<forall>name. name \<noteq> volumeName \<longrightarrow> name \<noteq> [] \<longrightarrow>
                 1 < length (groupOf es engineOrder name) \<longrightarrow>
                 \<not> list_ex (pointee es Engine_Spec_Active) (groupOf es engineOrder name) \<longrightarrow>
                 (\<exists>v'. volumeFor lhc rm name = Inr v')) \<longrightarrow>
              (\<exists>rm'. checkAndUpdateEngineActiveState lhc engineOrder volumeOrder rm = Inr rm'))"
proof -
  let ?ks = "groupOf es engineOrder volumeName"
  let ?run = "checkAndUpdateEngineActiveState lhc engineOrder volumeOrder rm"
  from assms(5) have ne: "?ks \<noteq> []" and len: "length ?ks \<noteq> 1" by auto
  from assms(3) have d: "distinct volumeOrder" by (simp add: rangeValid_def)
  have nomatch: "find (pointee es (nodeMatches v)) ?ks = None"
    using assms(8)
    by (auto simp: find_None_iff list_ex_iff pointee_def nodeMatches_def split: option.splits)
  with assms(6,7) len
  have cur: "currentEngineOf (volumeFor lhc rm) es volumeName ?ks = Inr None"
    by (simp add: currentEngineOf_lookup)
  have a: "\<exists>es'. engines rm' = Some es' \<and>
             (\<forall>p \<in> set ?ks. map_of es' p = map_of es p \<and> \<not> pointee es' Engine_Spec_Active p)"
    if r: "?run = Inr rm'" for rm'
  proof -
    from run_group_effect[OF assms(1,3) r assms(4) ne] cur obtain es' where
      es': "engines rm' = Some es'" and same: "\<forall>p \<in> set ?ks. map_of es' p = map_of es p"
      by auto
    from assms(6) same have "\<forall>p \<in> set ?ks. \<not> pointee es' Engine_Spec_Active p"
      by (auto simp: list_ex_iff pointee_def)
    with es' same show ?thesis by blast
  qed
  have b: "\<exists>name err. name \<noteq> volumeName \<and> name \<noteq> [] \<and>
             1 < length (groupOf es engineOrder name) \<and>
             \<not> list_ex (pointee es Engine_Spec_Active) (groupOf es engineOrder name) \<and>
             a = Err err \<and> volumeFor lhc rm name = Inl err"
    if r: "?run = Inl a" for a
  proof -
    from run_error[OF assms(1) d r] obtain name where
      n: "name \<noteq> []" and g: "groupOf es engineOrder name \<noteq> []"
      and f: "currentEngineOf (volumeFor lhc rm) es name (groupOf es engineOrder name) = Inl a"
      by blast
    from f cur have "name \<noteq> volumeName" by auto
    moreover from currentEngineOf_Inl_group[OF f] g
    have "1 < length (groupOf es engineOrder name)"
      and "\<not> list_ex (pointee es Engine_Spec_Active) (groupOf es engineOrder name)"
      by (cases "groupOf es engineOrder name"; auto)+
    moreover from currentEngineOf_Inl[OF f] obtain err where
      "a = Err err" and "volumeFor lhc rm name = Inl err" by blast
    ultimately show ?thesis using n by blast
  qed
  have c: "\<exists>rm'. ?run = Inr rm'"
    if ok: "\<forall>name. name \<noteq> volumeName \<longrightarrow> name \<noteq> [] \<longrightarrow>
                 1 < length (groupOf es engineOrder name) \<longrightarrow>
                 \<not> list_ex (pointee es Engine_Spec_Active) (groupOf es engineOrder name) \<longrightarrow>
                 (\<exists>v'. volumeFor lhc rm name = Inr v')"
  proof (cases ?run)
    case (Inl a)
    from b[OF Inl] ok show ?thesis by force
  next
    case (Inr rm')
    then show ?thesis by blast
  qed
  from a b c show ?thesis by blast
qed

lemma group_one_active:
  assumes "ListAndUpdateEnginesInProvidedCache lhc rm = Inr (es, rm1)"
      and "rangeValid engineOrder es"
      and "rangeValid volumeOrder (volumeEngineMap (rangeOver engineOrder es))"
      and "checkAndUpdateEngineActiveState lhc engineOrder volumeOrder rm = Inr rm'"
      and "volumeName \<noteq> []"
      and "groupOf es engineOrder volumeName \<noteq> []"
      and "length (filter (pointee es Engine_Spec_Active) (groupOf es engineOrder volumeName)) = 1
           \<or> length (groupOf es engineOrder volumeName) = 1
           \<or> (\<not> list_ex (pointee es Engine_Spec_Active) (groupOf es engineOrder volumeName) \<and>
              (\<exists>v. volumeFor lhc rm volumeName = Inr v \<and>
                   length (filter (pointee es (nodeMatches v)) (groupOf es engineOrder volumeName)) = 1))"
    shows "\<exists>es'. engines rm' = Some es' \<and>
             groupOf es' engineOrder volumeName = groupOf es engineOrder volumeName \<and>
             length (filter (pointee es' Engine_Spec_Active) (groupOf es' engineOrder volumeName)) = 1 \<and>
             (length (groupOf es engineOrder volumeName) = 1 \<longrightarrow>
                pointee es' Engine_Spec_Active (hd (groupOf es engineOrder volumeName)))"
proof -
  let ?ks = "groupOf es engineOrder volumeName"
  from assms(3) have d: "distinct volumeOrder" by (simp add: rangeValid_def)
  have dk: "distinct ?ks" using assms(2) by (rule rangeValid_groupOf)
  have pts: "\<forall>p \<in> set ?ks. \<exists>e. map_of es p = Some e"
    using groupOf_points by blast
  from run_group_effect[OF assms(1,3,4,5,6)] obtain c es' where
    c: "currentEngineOf (volumeFor lhc rm) es volumeName ?ks = Inr c"
    and es': "engines rm' = Some es'"
    and eff: "\<forall>p \<in> set ?ks.
                map_of es' p = (if c = Some p then map_option setActive (map_of es p) else map_of es p)"
    by blast
  have g: "groupOf es' engineOrder volumeName = ?ks"
    using run_same_groups(2)[OF assms(1) d assms(4) es'] .
  have one: "length (filter (pointee es' Engine_Spec_Active) ?ks) = 1"
  proof (cases "list_ex (pointee es Engine_Spec_Active) ?ks")
    case True
    with c have "c = None" by (simp add: currentEngineOf_def)
    with eff have "\<forall>p \<in> set ?ks. map_of es' p = map_of es p" by simp
    then have same: "filter (pointee es' Engine_Spec_Active) ?ks = filter (pointee es Engine_Spec_Active) ?ks"
      by (auto simp: pointee_def cong: filter_cong)
    from True have "filter (pointee es Engine_Spec_Active) ?ks \<noteq> []"
      by (auto simp: list_ex_iff filter_empty_conv)
    show ?thesis
    proof (cases "length (filter (pointee es Engine_Spec_Active) ?ks) = 1")
      case True
      with same show ?thesis by simp
    next
      case False
      with assms(7) True \<open>list_ex (pointee es Engine_Spec_Active) ?ks\<close>
      have "length ?ks = 1" by auto
      then obtain q where q: "?ks = [q]" by (cases ?ks) auto
      with \<open>list_ex (pointee es Engine_Spec_Active) ?ks\<close> same show ?thesis
        by simp
    qed
  next
    case False
    have "\<exists>q. c = Some q"
    proof (cases "length ?ks = 1")
      case True
      with False c show ?thesis by (auto simp: currentEngineOf_def)
    next
      case len: False
      with assms(7) False obtain v where v: "volumeFor lhc rm volumeName = Inr v"
        and u: "length (filter (pointee es (nodeMatches v)) ?ks) = 1"
        by (auto simp: list_ex_iff filter_empty_conv)
      from u have "filter (pointee es (nodeMatches v)) ?ks \<noteq> []" by auto
      then have "find (pointee es (nodeMatches v)) ?ks \<noteq> None"
        by (auto simp: find_None_iff filter_empty_conv)
      with c False len v show ?thesis
        by (auto simp: currentEngineOf_lookup)
    qed
    then obtain q where q: "c = Some q" by blast
    with c have "q \<in> set ?ks" using currentEngineOf_mem by blast
    from one_activated[OF dk this False pts] eff q show ?thesis by simp
  qed
  have single: "pointee es' Engine_Spec_Active (hd ?ks)" if "length ?ks = 1"
  proof -
    from that obtain q where q: "?ks = [q]" by (cases ?ks) auto
    with one show ?thesis by (simp split: if_splits)
  qed
  from es' g one single show ?thesis by simp
qed

lemma run_idempotent:
  assumes "ListAndUpdateEnginesInProvidedCache lhc rm = Inr (es, rm1)"
      and "rangeValid engineOrder es"
      and "rangeValid volumeOrder (volumeEngineMap (rangeOver engineOrder es))"
      and "checkAndUpdateEngineActiveState lhc engineOrder volumeOrder rm = Inr rm'"
      and "rangeValid engineOrder' es"
    shows "checkAndUpdateEngineActiveState lhc engineOrder' volumeOrder' rm' = Inr rm'
         \<and> (\<exists>es'. engines rm' = Some es' \<and>
              (\<forall>volumeName.
                 list_ex (pointee es Engine_Spec_Active) (groupOf es engineOrder volumeName) \<longrightarrow>
                 (\<forall>p \<in> set (groupOf es engineOrder volumeName). map_of es' p = map_of es p)))"
proof -
  let ?gs = "rangeOver volumeOrder (volumeEngineMap (rangeOver engineOrder es))"
  from assms(3) have d: "distinct volumeOrder" by (simp add: rangeValid_def)
  from assms(1,4) obtain rm2 es' where
    run: "rangeEngineGroups lhc ?gs (rm1, es) = Inr (rm2, es')"
    and rm': "rm' = rm2\<lparr>engines := Some es'\<rparr>"
    by (rule run_Inr)
  from rm' have es': "engines rm' = Some es'" by simp
  note same = run_same_groups[OF assms(1) d assms(4) es']
  from run_effect[OF assms(1) d assms(4)] es' have
    eff: "\<And>p. map_of es' p =
              (if \<exists>vn \<in> set volumeOrder. vn \<noteq> [] \<and>
                    currentEngineOf (volumeFor lhc rm) es vn (groupOf es engineOrder vn) = Inr (Some p)
               then map_option setActive (map_of es p) else map_of es p)"
    by auto
  have vf: "volumeFor lhc rm' = volumeFor lhc rm"
  proof -
    have "cachedVolume rm' = cachedVolume rm2"
      using rm' by (simp add: fun_eq_iff cachedVolume_def)
    then have "volumeFor lhc rm' = volumeFor lhc rm2"
      by (simp add: fun_eq_iff volumeFor_alt)
    with rangeEngineGroups_cache(1)[OF run] List_engines_cache(5)[OF assms(1)]
    show ?thesis by simp
  qed
  \<comment> \<open>groups with an active engine are left as they were\<close>
  have skipped: "map_of es' p = map_of es p"
    if act: "list_ex (pointee es Engine_Spec_Active) (groupOf es engineOrder vn)"
      and p: "p \<in> set (groupOf es engineOrder vn)" for vn p
  proof -
    have "\<not> (\<exists>vn' \<in> set volumeOrder. vn' \<noteq> [] \<and>
              currentEngineOf (volumeFor lhc rm) es vn' (groupOf es engineOrder vn') = Inr (Some p))"
    proof
      assume "\<exists>vn' \<in> set volumeOrder. vn' \<noteq> [] \<and>
              currentEngineOf (volumeFor lhc rm) es vn' (groupOf es engineOrder vn') = Inr (Some p)"
      then obtain vn' where
        c': "currentEngineOf (volumeFor lhc rm) es vn' (groupOf es engineOrder vn') = Inr (Some p)"
        by blast
      from group_chosen_unique[OF c' p] have "vn' = vn" .
      with c' act show False by (simp add: currentEngineOf_def)
    qed
    with eff[of p] show ?thesis by simp
  qed
  \<comment> \<open>the second run finds every group settled\<close>
  let ?gs2 = "rangeOver volumeOrder' (volumeEngineMap (rangeOver engineOrder' es'))"
  have v2: "rangeValid engineOrder' es'"
    using assms(5) same(3) by (simp add: rangeValid_def)
  have settled: "updateEngineGroup lhc vn ks2 (rm', es') = Inr (rm', es')"
    if mem: "(vn, ks2) \<in> set ?gs2" for vn ks2
  proof -
    let ?ks = "groupOf es engineOrder vn"
    from mem have vn: "vn \<noteq> []" and ks2: "ks2 = groupOf es' engineOrder' vn" and ne2: "ks2 \<noteq> []"
      by (auto simp: groups_mem)
    have sets: "set ks2 = set ?ks"
      unfolding ks2 using rangeValid_groupOf(2)[OF v2] rangeValid_groupOf(2)[OF assms(2)] same(1)
      by blast
    have "distinct ks2" unfolding ks2 using v2 by (rule rangeValid_groupOf)
    moreover have "distinct ?ks" using assms(2) by (rule rangeValid_groupOf)
    ultimately have len: "length ks2 = length ?ks"
      using sets by (metis distinct_card)
    from sets ne2 have ne: "?ks \<noteq> []" by auto
    from assms(3) vn ne have m: "vn \<in> set volumeOrder" by (simp add: rangeValid_groups)
    from run_group_effect[OF assms(1,3,4) vn ne] es' obtain c where
      c: "currentEngineOf (volumeFor lhc rm) es vn ?ks = Inr c"
      and eff1: "\<forall>p \<in> set ?ks.
                map_of es' p = (if c = Some p then map_option setActive (map_of es p) else map_of es p)"
      by auto
    show ?thesis
    proof (cases "list_ex (pointee es' Engine_Spec_Active) ks2")
      case True
      then show ?thesis by (rule updateEngineGroup_skip)
    next
      case False
      have noact: "\<not> list_ex (pointee es Engine_Spec_Active) ?ks"
        using False sets same(4) by (auto simp: list_ex_iff)
      have cNone: "c = None"
      proof (cases c)
        case None
        then show ?thesis .
      next
        case (Some q)
        with c have q: "q \<in> set ?ks" using currentEngineOf_mem by blast
        with groupOf_points obtain e where "map_of es q = Some e" by blast
        with eff1 q Some have "pointee es' Engine_Spec_Active q"
          by (simp add: pointee_def setActive_def)
        with q sets False show ?thesis by (auto simp: list_ex_iff)
      qed
      with c noact have len1: "length ?ks \<noteq> 1"
        by (auto simp: currentEngineOf_def)
      from c cNone noact len1 obtain v where v: "volumeFor lhc rm vn = Inr v"
        and nf: "find (pointee es (nodeMatches v)) ?ks = None"
        by (auto simp: currentEngineOf_lookup split: sum.splits)
      from m vn ne have "(vn, ?ks) \<in> set ?gs" by (simp add: groups_mem)
      from rangeEngineGroups_caches[OF run groups_disjoint[OF d] this _ len1] noact
      obtain v' where "cachedVolume rm2 vn = Some v'"
        using List_engines_cache(1)[OF assms(1)] by auto
      then have cv': "cachedVolume rm' vn = Some v'"
        using rm' by (simp add: cachedVolume_def)
      then have "volumeFor lhc rm' vn = Inr v'" by (simp add: volumeFor_alt)
      with vf v have "v' = v" by simp
      with cv' have cached: "cachedVolume rm' vn = Some v" by simp
      have "\<not> pointee es' (nodeMatches v) p" if "p \<in> set ks2" for p
      proof -
        from that sets have p: "p \<in> set ?ks" by simp
        with eff1 cNone have "map_of es' p = map_of es p" by simp
        moreover from nf p have "\<not> pointee es (nodeMatches v) p" by (simp add: find_None_iff)
        ultimately show ?thesis by (simp add: pointee_def)
      qed
      with len len1 cached show ?thesis
        by (intro updateEngineGroup_unresolved) auto
    qed
  qed
  have "rangeEngineGroups lhc ?gs2 (rm', es') = Inr (rm', es')"
    by (rule rangeEngineGroups_stable) (use settled in auto)
  moreover have "ListAndUpdateEnginesInProvidedCache lhc rm' = Inr (es', rm')"
    using es' by (simp add: ListAndUpdateEnginesInProvidedCache_def)
  moreover have "rm'\<lparr>engines := Some es'\<rparr> = rm'"
    using es' by simp
  ultimately have "checkAndUpdateEngineActiveState lhc engineOrder' volumeOrder' rm' = Inr rm'"
    by (simp add: checkAndUpdateEngineActiveState_def)
  with es' skipped show ?thesis by blast
qed

section \<open>checkAndUpdateEngineActiveState: the claims\<close>

text \<open>
  In the statements below a volume group is an entry of \<open>volumeEngineMap\<close> as line 153
  ranges over it: \<open>map_of (volumeEngineMap (rangeOver engineOrder es)) volumeName = Some engineList\<close>.
\<close>

lemma volumeEngineMap_entry:
  assumes "map_of (volumeEngineMap (rangeOver eo es)) vn = Some ks"
  shows "vn \<noteq> []" and "ks \<noteq> []" and "ks = groupOf es eo vn"
  using assms by (auto simp: volumeEngineMap_lookup split: if_splits)

text \<open>
  C2, as stated: the group of \<open>v1\<close> has two engines, none active, and the volume \<open>v1\<close> is in
  neither the cache nor the store. The claim expects the group to be skipped and no error;
  the lookup at line 170 fails and line 172 returns its error.
\<close>

theorem checkAndUpdateEngineActiveState_missing_volume_error:
  "map_of (volumeEngineMap (rangeOver [''e1'', ''e2'', ''e3''] enginesThree)) ''v1''
     = Some [''e1'', ''e2'']
   \<and> \<not> list_ex (pointee enginesThree Engine_Spec_Active) [''e1'', ''e2'']
   \<and> cachedVolume (cacheOf [] enginesThree []) ''v1'' = None
   \<and> GetVolume emptyStore ''v1'' = Inr None
   \<and> checkAndUpdateEngineActiveState emptyStore [''e1'', ''e2'', ''e3''] [''v1'', ''v2'']
       (cacheOf [] enginesThree [])
     = Inl (Err (NotFound ''v1''))"
  by (simp add: engines_defs example_defs)

text \<open>
  C2, amended. When a group of more than one engine with none active belongs to a volume
  that is in neither the cache nor the store, \<open>checkAndUpdateEngineActiveState\<close> returns an
  error, the error of a failed volume lookup, instead of skipping the group.
\<close>

theorem checkAndUpdateEngineActiveState_missing_volume_fails:
  assumes "ListAndUpdateEnginesInProvidedCache lhc rm = Inr (es, rm1)"
      and "rangeValid engineOrder es"
      and "rangeValid volumeOrder (volumeEngineMap (rangeOver engineOrder es))"
      and "map_of (volumeEngineMap (rangeOver engineOrder es)) volumeName = Some engineList"
      and "1 < length engineList"
      and "\<not> list_ex (pointee es Engine_Spec_Active) engineList"
      and "cachedVolume rm volumeName = None"
      and "GetVolume lhc volumeName = Inr None"
    shows "\<exists>err name. checkAndUpdateEngineActiveState lhc engineOrder volumeOrder rm = Inl (Err err)
                     \<and> volumeFor lhc rm name = Inl err"
proof -
  note e = volumeEngineMap_entry[OF assms(4)]
  from assms(5,6) e(3) show ?thesis
    using group_missing_volume[OF assms(1,2,3) e(1) _ _ assms(7,8)] by simp
qed

theorem checkAndUpdateEngineActiveState_missing_volume_fails_witness:
  "ListAndUpdateEnginesInProvidedCache emptyStore (cacheOf [] enginesThree [])
     = Inr (enginesThree, cacheOf [] enginesThree [])
   \<and> rangeValid [''e3'', ''e1'', ''e2''] enginesThree
   \<and> rangeValid [''v2'', ''v1''] (volumeEngineMap (rangeOver [''e3'', ''e1'', ''e2''] enginesThree))
   \<and> map_of (volumeEngineMap (rangeOver [''e3'', ''e1'', ''e2''] enginesThree)) ''v1''
       = Some [''e1'', ''e2'']
   \<and> 1 < length [''e1'', ''e2'']
   \<and> \<not> list_ex (pointee enginesThree Engine_Spec_Active) [''e1'', ''e2'']
   \<and> cachedVolume (cacheOf [] enginesThree []) ''v1'' = None
   \<and> GetVolume emptyStore ''v1'' = Inr None
   \<and> (\<exists>err name.
         checkAndUpdateEngineActiveState emptyStore [''e3'', ''e1'', ''e2''] [''v2'', ''v1'']
           (cacheOf [] enginesThree []) = Inl (Err err)
         \<and> volumeFor emptyStore (cacheOf [] enginesThree []) name = Inl err)"
proof -
  let ?rm = "cacheOf [] enginesThree []"
  have h1: "ListAndUpdateEnginesInProvidedCache emptyStore ?rm = Inr (enginesThree, ?rm)"
    by (simp add: cache_defs cacheOf_def)
  have h2: "rangeValid [''e3'', ''e1'', ''e2''] enginesThree"
    by (simp add: rangeValid_def enginesThree_def insert_commute)
  have h3: "rangeValid [''v2'', ''v1''] (volumeEngineMap (rangeOver [''e3'', ''e1'', ''e2''] enginesThree))"
    by (simp add: engines_defs example_defs insert_commute)
  have h4: "map_of (volumeEngineMap (rangeOver [''e3'', ''e1'', ''e2''] enginesThree)) ''v1''
            = Some [''e1'', ''e2'']"
    by (simp add: engines_defs example_defs)
  have h5: "1 < length [''e1'', ''e2'']" by simp
  have h6: "\<not> list_ex (pointee enginesThree Engine_Spec_Active) [''e1'', ''e2'']"
    by (simp add: engines_defs example_defs)
  have h7: "cachedVolume ?rm ''v1'' = None"
    by (simp add: cachedVolume_def cacheOf_def)
  have h8: "GetVolume emptyStore ''v1'' = Inr None"
    by (simp add: emptyStore_def)
  from checkAndUpdateEngineActiveState_missing_volume_fails [OF h1 h2 h3 h4 h5 h6 h7 h8]
    h1 h2 h3 h4 h5 h6 h7 h8
  show ?thesis by blast
qed

text \<open>
  C3, as stated: the volume is current on \<open>n2\<close> and pending on \<open>n1\<close>; with \<open>e1\<close> (on \<open>n1\<close>)
  visited before \<open>e2\<close> (on \<open>n2\<close>), \<open>e1\<close> becomes active although \<open>e2\<close> is on the current node.
\<close>

theorem checkAndUpdateEngineActiveState_no_priority:
  "Volume_Status_CurrentNodeID (volumeOn [] ''n2'' ''n1'') = Engine_Spec_NodeID (engineOn ''v1'' ''n2'' False)
   \<and> Volume_Status_CurrentNodeID (volumeOn [] ''n2'' ''n1'') \<noteq> []
   \<and> Volume_Status_PendingNodeID (volumeOn [] ''n2'' ''n1'') = Engine_Spec_NodeID (engineOn ''v1'' ''n1'' False)
   \<and> Volume_Status_CurrentNodeID (volumeOn [] ''n2'' ''n1'') \<noteq> Engine_Spec_NodeID (engineOn ''v1'' ''n1'' False)
   \<and> checkAndUpdateEngineActiveState emptyStore [''e1'', ''e2''] [''v1'']
       (cacheOf [] enginesTwoNodes volumeMigrating)
     = Inr (cacheOf [] [(''e1'', engineOn ''v1'' ''n1'' True), (''e2'', engineOn ''v1'' ''n2'' False)]
              volumeMigrating)"
  by (simp add: engines_defs example_defs)

text \<open>
  C3, amended. In a group of more than one engine with none active, the engine that becomes
  active is the first one in the order of the range whose node ID equals a non-empty
  \<open>Spec.NodeID\<close>, \<open>Status.CurrentNodeID\<close> or \<open>Status.PendingNodeID\<close> of the volume; the other
  engines of the group keep their objects. The three fields are alternatives of one test.
\<close>

theorem checkAndUpdateEngineActiveState_first_match:
  assumes "ListAndUpdateEnginesInProvidedCache lhc rm = Inr (es, rm1)"
      and "rangeValid engineOrder es"
      and "rangeValid volumeOrder (volumeEngineMap (rangeOver engineOrder es))"
      and "checkAndUpdateEngineActiveState lhc engineOrder volumeOrder rm = Inr rm'"
      and "map_of (volumeEngineMap (rangeOver engineOrder es)) volumeName = Some engineList"
      and "1 < length engineList"
      and "\<not> list_ex (pointee es Engine_Spec_Active) engineList"
    shows "\<exists>v es'. volumeFor lhc rm volumeName = Inr v \<and> engines rm' = Some es' \<and>
             (\<forall>p \<in> set engineList.
                map_of es' p =
                  (if find (pointee es (nodeMatches v)) engineList = Some p
                   then map_option (\<lambda>e. e\<lparr>Engine_Spec_Active := True\<rparr>) (map_of es p)
                   else map_of es p))"
proof -
  note e = volumeEngineMap_entry[OF assms(5)]
  from assms(6,7) e(3) show ?thesis
    using group_first_match[OF assms(1,2,3,4) e(1)] by simp
qed

theorem checkAndUpdateEngineActiveState_first_match_witness:
  "ListAndUpdateEnginesInProvidedCache emptyStore (cacheOf [] enginesTwoNodes volumeMigrating)
     = Inr (enginesTwoNodes, cacheOf [] enginesTwoNodes volumeMigrating)
   \<and> rangeValid [''e2'', ''e1''] enginesTwoNodes
   \<and> rangeValid [''v1''] (volumeEngineMap (rangeOver [''e2'', ''e1''] enginesTwoNodes))
   \<and> checkAndUpdateEngineActiveState emptyStore [''e2'', ''e1''] [''v1'']
        (cacheOf [] enginesTwoNodes volumeMigrating)
     = Inr (cacheOf [] [(''e1'', engineOn ''v1'' ''n1'' False), (''e2'', engineOn ''v1'' ''n2'' True)]
              volumeMigrating)
   \<and> map_of (volumeEngineMap (rangeOver [''e2'', ''e1''] enginesTwoNodes)) ''v1''
       = Some [''e2'', ''e1'']
   \<and> 1 < length [''e2'', ''e1'']
   \<and> \<not> list_ex (pointee enginesTwoNodes Engine_Spec_Active) [''e2'', ''e1'']
   \<and> (\<exists>v es'. volumeFor emptyStore (cacheOf [] enginesTwoNodes volumeMigrating) ''v1'' = Inr v \<and>
         engines (cacheOf [] [(''e1'', engineOn ''v1'' ''n1'' False), (''e2'', engineOn ''v1'' ''n2'' True)]
                    volumeMigrating) = Some es' \<and>
         (\<forall>p \<in> set [''e2'', ''e1''].
            map_of es' p =
              (if find (pointee enginesTwoNodes (nodeMatches v)) [''e2'', ''e1''] = Some p
               then map_option (\<lambda>e. e\<lparr>Engine_Spec_Active := True\<rparr>) (map_of enginesTwoNodes p)
               else map_of enginesTwoNodes p)))"
proof -
  let ?rm = "cacheOf [] enginesTwoNodes volumeMigrating"
  have h1: "ListAndUpdateEnginesInProvidedCache emptyStore ?rm = Inr (enginesTwoNodes, ?rm)"
    by (simp add: cache_defs cacheOf_def)
  have h2: "rangeValid [''e2'', ''e1''] enginesTwoNodes"
    by (simp add: rangeValid_def enginesTwoNodes_def insert_commute)
  have h3: "rangeValid [''v1''] (volumeEngineMap (rangeOver [''e2'', ''e1''] enginesTwoNodes))"
    by (simp add: engines_defs example_defs)
  have h4: "checkAndUpdateEngineActiveState emptyStore [''e2'', ''e1''] [''v1''] ?rm
            = Inr (cacheOf [] [(''e1'', engineOn ''v1'' ''n1'' False), (''e2'', engineOn ''v1'' ''n2'' True)]
                     volumeMigrating)"
    by (simp add: engines_defs example_defs)
  have h5: "map_of (volumeEngineMap (rangeOver [''e2'', ''e1''] enginesTwoNodes)) ''v1''
            = Some [''e2'', ''e1'']"
    by (simp add: engines_defs example_defs)
  have h6: "1 < length [''e2'', ''e1'']" by simp
  have h7: "\<not> list_ex (pointee enginesTwoNodes Engine_Spec_Active) [''e2'', ''e1'']"
    by (simp add: engines_defs example_defs)
  from checkAndUpdateEngineActiveState_first_match [OF h1 h2 h3 h4 h5 h6 h7] h1 h2 h3 h4 h5 h6 h7
  show ?thesis by blast
qed

text \<open>
  C4. Running \<open>checkAndUpdateEngineActiveState\<close> again on the cache that a first run returned,
  with any order of the two ranges, returns that cache unchanged; and the first run leaves
  every engine of a group that had an active engine, one or several, as it was.
\<close>

theorem checkAndUpdateEngineActiveState_idempotent:
  assumes "ListAndUpdateEnginesInProvidedCache lhc rm = Inr (es, rm1)"
      and "rangeValid engineOrder es"
      and "rangeValid volumeOrder (volumeEngineMap (rangeOver engineOrder es))"
      and "checkAndUpdateEngineActiveState lhc engineOrder volumeOrder rm = Inr rm'"
      and "rangeValid engineOrder' es"
    shows "checkAndUpdateEngineActiveState lhc engineOrder' volumeOrder' rm' = Inr rm'
         \<and> (\<exists>es'. engines rm' = Some es' \<and>
              (\<forall>volumeName engineList.
                 map_of (volumeEngineMap (rangeOver engineOrder es)) volumeName = Some engineList \<longrightarrow>
                 list_ex (pointee es Engine_Spec_Active) engineList \<longrightarrow>
                 (\<forall>p \<in> set engineList. map_of es' p = map_of es p)))"
proof -
  from run_idempotent[OF assms, of volumeOrder'] obtain es' where
    again: "checkAndUpdateEngineActiveState lhc engineOrder' volumeOrder' rm' = Inr rm'"
    and es': "engines rm' = Some es'"
    and skipped: "\<And>volumeName.
             list_ex (pointee es Engine_Spec_Active) (groupOf es engineOrder volumeName) \<Longrightarrow>
             \<forall>p \<in> set (groupOf es engineOrder volumeName). map_of es' p = map_of es p"
    by blast
  have "\<forall>p \<in> set engineList. map_of es' p = map_of es p"
    if "map_of (volumeEngineMap (rangeOver engineOrder es)) volumeName = Some engineList"
      and "list_ex (pointee es Engine_Spec_Active) engineList" for volumeName engineList
    using skipped[of volumeName] that volumeEngineMap_entry(3)[OF that(1)] by simp
  with again es' show ?thesis by blast
qed

theorem checkAndUpdateEngineActiveState_idempotent_witness:
  "ListAndUpdateEnginesInProvidedCache emptyStore (cacheOf [] enginesThree volumeCurrentN2)
     = Inr (enginesThree, cacheOf [] enginesThree volumeCurrentN2)
   \<and> rangeValid [''e1'', ''e2'', ''e3''] enginesThree
   \<and> rangeValid [''v1'', ''v2''] (volumeEngineMap (rangeOver [''e1'', ''e2'', ''e3''] enginesThree))
   \<and> checkAndUpdateEngineActiveState emptyStore [''e1'', ''e2'', ''e3''] [''v1'', ''v2'']
        (cacheOf [] enginesThree volumeCurrentN2)
     = Inr (cacheOf [] enginesThreeAfter volumeCurrentN2)
   \<and> rangeValid [''e3'', ''e2'', ''e1''] enginesThree
   \<and> checkAndUpdateEngineActiveState emptyStore [''e3'', ''e2'', ''e1''] [''v2'', ''v1'']
        (cacheOf [] enginesThreeAfter volumeCurrentN2)
     = Inr (cacheOf [] enginesThreeAfter volumeCurrentN2)"
proof -
  let ?rm = "cacheOf [] enginesThree volumeCurrentN2"
  have h1: "ListAndUpdateEnginesInProvidedCache emptyStore ?rm = Inr (enginesThree, ?rm)"
    by (simp add: cache_defs cacheOf_def)
  have h2: "rangeValid [''e1'', ''e2'', ''e3''] enginesThree"
    by (simp add: rangeValid_def enginesThree_def insert_commute)
  have h3: "rangeValid [''v1'', ''v2''] (volumeEngineMap (rangeOver [''e1'', ''e2'', ''e3''] enginesThree))"
    by (simp add: engines_defs example_defs insert_commute)
  have h4: "checkAndUpdateEngineActiveState emptyStore [''e1'', ''e2'', ''e3''] [''v1'', ''v2''] ?rm
            = Inr (cacheOf [] enginesThreeAfter volumeCurrentN2)"
    by (simp add: engines_defs example_defs)
  have h5: "rangeValid [''e3'', ''e2'', ''e1''] enginesThree"
    by (simp add: rangeValid_def enginesThree_def insert_commute)
  from checkAndUpdateEngineActiveState_idempotent
         [where volumeOrder' = "[''v2'', ''v1'']", OF h1 h2 h3 h4 h5] h1 h2 h3 h4 h5
  show ?thesis by blast
qed

text \<open>
  C5, as stated: a group that had an already-active engine, here two of them, is skipped,
  and ends with two active engines, not exactly one.
\<close>

theorem checkAndUpdateEngineActiveState_two_active_kept:
  "map_of (volumeEngineMap (rangeOver [''e1'', ''e2''] enginesBothActive)) ''v1''
     = Some [''e1'', ''e2'']
   \<and> list_ex (pointee enginesBothActive Engine_Spec_Active) [''e1'', ''e2'']
   \<and> checkAndUpdateEngineActiveState emptyStore [''e1'', ''e2''] [''v1'']
       (cacheOf [] enginesBothActive [])
     = Inr (cacheOf [] enginesBothActive [])
   \<and> length (filter (pointee enginesBothActive Engine_Spec_Active) [''e1'', ''e2'']) = 2"
  by (simp add: engines_defs example_defs)

text \<open>
  C5, amended. After a run that returns, a group with at least one engine has exactly one
  active engine if it had exactly one active engine before, or has exactly one engine, or had
  no active engine and exactly one engine matching a node field of its volume; a group of a
  single engine ends with that engine active. The group has the same engines after the run.
\<close>

theorem checkAndUpdateEngineActiveState_one_active:
  assumes "ListAndUpdateEnginesInProvidedCache lhc rm = Inr (es, rm1)"
      and "rangeValid engineOrder es"
      and "rangeValid volumeOrder (volumeEngineMap (rangeOver engineOrder es))"
      and "checkAndUpdateEngineActiveState lhc engineOrder volumeOrder rm = Inr rm'"
      and "map_of (volumeEngineMap (rangeOver engineOrder es)) volumeName = Some engineList"
      and "length (filter (pointee es Engine_Spec_Active) engineList) = 1
           \<or> length engineList = 1
           \<or> (\<not> list_ex (pointee es Engine_Spec_Active) engineList \<and>
              (\<exists>v. volumeFor lhc rm volumeName = Inr v \<and>
                   length (filter (pointee es (nodeMatches v)) engineList) = 1))"
    shows "\<exists>es'. engines rm' = Some es' \<and>
             map_of (volumeEngineMap (rangeOver engineOrder es')) volumeName = Some engineList \<and>
             length (filter (pointee es' Engine_Spec_Active) engineList) = 1 \<and>
             (length engineList = 1 \<longrightarrow> pointee es' Engine_Spec_Active (hd engineList))"
proof -
  note e = volumeEngineMap_entry[OF assms(5)]
  from assms(6) e(3) have
    "length (filter (pointee es Engine_Spec_Active) (groupOf es engineOrder volumeName)) = 1
     \<or> length (groupOf es engineOrder volumeName) = 1
     \<or> (\<not> list_ex (pointee es Engine_Spec_Active) (groupOf es engineOrder volumeName) \<and>
        (\<exists>v. volumeFor lhc rm volumeName = Inr v \<and>
             length (filter (pointee es (nodeMatches v)) (groupOf es engineOrder volumeName)) = 1))"
    by simp
  from group_one_active[OF assms(1,2,3,4) e(1) _ this] e(2,3) obtain es' where
    es': "engines rm' = Some es'"
    and g: "groupOf es' engineOrder volumeName = engineList"
    and one: "length (filter (pointee es' Engine_Spec_Active) engineList) = 1"
    and single: "length engineList = 1 \<longrightarrow> pointee es' Engine_Spec_Active (hd engineList)"
    by auto
  from g e(1,2) have "map_of (volumeEngineMap (rangeOver engineOrder es')) volumeName = Some engineList"
    by (simp add: volumeEngineMap_lookup)
  with es' one single show ?thesis by blast
qed

theorem checkAndUpdateEngineActiveState_one_active_witness:
  "ListAndUpdateEnginesInProvidedCache emptyStore (cacheOf [] enginesThree volumeCurrentN2)
     = Inr (enginesThree, cacheOf [] enginesThree volumeCurrentN2)
   \<and> rangeValid [''e1'', ''e2'', ''e3''] enginesThree
   \<and> rangeValid [''v1'', ''v2''] (volumeEngineMap (rangeOver [''e1'', ''e2'', ''e3''] enginesThree))
   \<and> checkAndUpdateEngineActiveState emptyStore [''e1'', ''e2'', ''e3''] [''v1'', ''v2'']
        (cacheOf [] enginesThree volumeCurrentN2)
     = Inr (cacheOf [] enginesThreeAfter volumeCurrentN2)
   \<and> map_of (volumeEngineMap (rangeOver [''e1'', ''e2'', ''e3''] enginesThree)) ''v1''
       = Some [''e1'', ''e2'']
   \<and> \<not> list_ex (pointee enginesThree Engine_Spec_Active) [''e1'', ''e2'']
   \<and> volumeFor emptyStore (cacheOf [] enginesThree volumeCurrentN2) ''v1'' = Inr (volumeOn [] ''n2'' [])
   \<and> length (filter (pointee enginesThree (nodeMatches (volumeOn [] ''n2'' []))) [''e1'', ''e2'']) = 1
   \<and> (\<exists>es'. engines (cacheOf [] enginesThreeAfter volumeCurrentN2) = Some es' \<and>
         map_of (volumeEngineMap (rangeOver [''e1'', ''e2'', ''e3''] es')) ''v1'' = Some [''e1'', ''e2''] \<and>
         length (filter (pointee es' Engine_Spec_Active) [''e1'', ''e2'']) = 1 \<and>
         (length [''e1'', ''e2''] = 1 \<longrightarrow> pointee es' Engine_Spec_Active (hd [''e1'', ''e2''])))"
proof -
  let ?rm = "cacheOf [] enginesThree volumeCurrentN2"
  have h1: "ListAndUpdateEnginesInProvidedCache emptyStore ?rm = Inr (enginesThree, ?rm)"
    by (simp add: cache_defs cacheOf_def)
  have h2: "rangeValid [''e1'', ''e2'', ''e3''] enginesThree"
    by (simp add: rangeValid_def enginesThree_def insert_commute)
  have h3: "rangeValid [''v1'', ''v2''] (volumeEngineMap (rangeOver [''e1'', ''e2'', ''e3''] enginesThree))"
    by (simp add: engines_defs example_defs insert_commute)
  have h4: "checkAndUpdateEngineActiveState emptyStore [''e1'', ''e2'', ''e3''] [''v1'', ''v2''] ?rm
            = Inr (cacheOf [] enginesThreeAfter volumeCurrentN2)"
    by (simp add: engines_defs example_defs)
  have h5: "map_of (volumeEngineMap (rangeOver [''e1'', ''e2'', ''e3''] enginesThree)) ''v1''
            = Some [''e1'', ''e2'']"
    by (simp add: engines_defs example_defs)
  have h6a: "\<not> list_ex (pointee enginesThree Engine_Spec_Active) [''e1'', ''e2'']"
    by (simp add: engines_defs example_defs)
  have h6b: "volumeFor emptyStore ?rm ''v1'' = Inr (volumeOn [] ''n2'' [])"
    by (simp add: engines_defs example_defs)
  have h6c: "length (filter (pointee enginesThree (nodeMatches (volumeOn [] ''n2'' []))) [''e1'', ''e2'']) = 1"
    by (simp add: engines_defs example_defs)
  from h6a h6b h6c have h6:
    "length (filter (pointee enginesThree Engine_Spec_Active) [''e1'', ''e2'']) = 1
     \<or> length [''e1'', ''e2''] = 1
     \<or> (\<not> list_ex (pointee enginesThree Engine_Spec_Active) [''e1'', ''e2''] \<and>
        (\<exists>v. volumeFor emptyStore ?rm ''v1'' = Inr v \<and>
             length (filter (pointee enginesThree (nodeMatches v)) [''e1'', ''e2'']) = 1))"
    by blast
  from checkAndUpdateEngineActiveState_one_active [OF h1 h2 h3 h4 h5 h6] h1 h2 h3 h4 h5 h6a h6b h6c
  show ?thesis by blast
qed

text \<open>
  C9, as stated: the group of \<open>v1\<close> has two engines, none active, and its volume has no node
  field equal to the node ID of either; the group of \<open>v3\<close>, ranged over after it, has two
  engines and a volume that is in neither the cache nor the store. The claim expects the
  step to complete for the other groups; the lookup for \<open>v3\<close> fails and the step returns its
  error.
\<close>

theorem checkAndUpdateEngineActiveState_unresolved_then_error:
  "map_of (volumeEngineMap (rangeOver [''e1'', ''e2'', ''e4'', ''e5''] enginesTwoGroups)) ''v1''
     = Some [''e1'', ''e2'']
   \<and> \<not> list_ex (pointee enginesTwoGroups Engine_Spec_Active) [''e1'', ''e2'']
   \<and> volumeFor emptyStore (cacheOf [] enginesTwoGroups volumeNoNode) ''v1'' = Inr (volumeOn [] [] [])
   \<and> \<not> list_ex (pointee enginesTwoGroups
                   (\<lambda>e. Engine_Spec_NodeID e = Volume_Spec_NodeID (volumeOn [] [] []) \<or>
                        Engine_Spec_NodeID e = Volume_Status_CurrentNodeID (volumeOn [] [] []) \<or>
                        Engine_Spec_NodeID e = Volume_Status_PendingNodeID (volumeOn [] [] [])))
          [''e1'', ''e2'']
   \<and> checkAndUpdateEngineActiveState emptyStore [''e1'', ''e2'', ''e4'', ''e5''] [''v1'', ''v3'']
       (cacheOf [] enginesTwoGroups volumeNoNode)
     = Inl (Err (NotFound ''v3''))"
  by (simp add: engines_defs example_defs)

text \<open>
  C9, amended. For a group of more than one engine with none active, whose volume is found
  and has no node field equal to the node ID of any engine of the group: a run that returns
  leaves every engine of the group as it was, none of them active; a run that fails does so
  with the lookup error of another group of the run that has more than one engine and none
  active; and when the volume lookup succeeds for every other such group the run returns.
\<close>

theorem checkAndUpdateEngineActiveState_unresolved_unchanged:
  assumes "ListAndUpdateEnginesInProvidedCache lhc rm = Inr (es, rm1)"
      and "rangeValid engineOrder es"
      and "rangeValid volumeOrder (volumeEngineMap (rangeOver engineOrder es))"
      and "map_of (volumeEngineMap (rangeOver engineOrder es)) volumeName = Some engineList"
      and "1 < length engineList"
      and "\<not> list_ex (pointee es Engine_Spec_Active) engineList"
      and "volumeFor lhc rm volumeName = Inr v"
      and "\<not> list_ex (pointee es (\<lambda>e. Engine_Spec_NodeID e = Volume_Spec_NodeID v \<or>
                                      Engine_Spec_NodeID e = Volume_Status_CurrentNodeID v \<or>
                                      Engine_Spec_NodeID e = Volume_Status_PendingNodeID v))
              engineList"
    shows "(\<forall>rm'. checkAndUpdateEngineActiveState lhc engineOrder volumeOrder rm = Inr rm' \<longrightarrow>
              (\<exists>es'. engines rm' = Some es' \<and>
                 (\<forall>p \<in> set engineList.
                    map_of es' p = map_of es p \<and> \<not> pointee es' Engine_Spec_Active p)))
         \<and> (\<forall>a. checkAndUpdateEngineActiveState lhc engineOrder volumeOrder rm = Inl a \<longrightarrow>
              (\<exists>name others err.
                 map_of (volumeEngineMap (rangeOver engineOrder es)) name = Some others \<and>
                 name \<noteq> volumeName \<and> 1 < length others \<and>
                 \<not> list_ex (pointee es Engine_Spec_Active) others \<and>
                 a = Err err \<and> volumeFor lhc rm name = Inl err))
         \<and> ((\<forall>name others.
                 map_of (volumeEngineMap (rangeOver engineOrder es)) name = Some others \<longrightarrow>
                 name \<noteq> volumeName \<longrightarrow> 1 < length others \<longrightarrow>
                 \<not> list_ex (pointee es Engine_Spec_Active) others \<longrightarrow>
                 (\<exists>v'. volumeFor lhc rm name = Inr v')) \<longrightarrow>
              (\<exists>rm' es'. checkAndUpdateEngineActiveState lhc engineOrder volumeOrder rm = Inr rm' \<and>
                 engines rm' = Some es' \<and>
                 (\<forall>p \<in> set engineList.
                    map_of es' p = map_of es p \<and> \<not> pointee es' Engine_Spec_Active p)))"
proof -
  let ?vem = "volumeEngineMap (rangeOver engineOrder es)"
  let ?run = "checkAndUpdateEngineActiveState lhc engineOrder volumeOrder rm"
  note e = volumeEngineMap_entry[OF assms(4)]
  have entry: "map_of ?vem name = Some (groupOf es engineOrder name)"
    if "name \<noteq> []" and "1 < length (groupOf es engineOrder name)" for name
  proof -
    from that(2) have "groupOf es engineOrder name \<noteq> []" by auto
    with that(1) show ?thesis by (simp add: volumeEngineMap_lookup)
  qed
  from assms(5,6,8) e(3) have g:
    "(\<forall>rm'. ?run = Inr rm' \<longrightarrow>
        (\<exists>es'. engines rm' = Some es' \<and>
           (\<forall>p \<in> set engineList.
              map_of es' p = map_of es p \<and> \<not> pointee es' Engine_Spec_Active p)))"
    "(\<forall>a. ?run = Inl a \<longrightarrow>
        (\<exists>name err. name \<noteq> volumeName \<and> name \<noteq> [] \<and>
           1 < length (groupOf es engineOrder name) \<and>
           \<not> list_ex (pointee es Engine_Spec_Active) (groupOf es engineOrder name) \<and>
           a = Err err \<and> volumeFor lhc rm name = Inl err))"
    using group_unresolved[OF assms(1,2,3) e(1) _ _ assms(7)] by simp_all
  have b: "\<exists>name others err.
             map_of ?vem name = Some others \<and> name \<noteq> volumeName \<and> 1 < length others \<and>
             \<not> list_ex (pointee es Engine_Spec_Active) others \<and>
             a = Err err \<and> volumeFor lhc rm name = Inl err"
    if r: "?run = Inl a" for a
  proof -
    from g(2) r obtain name err where
      n: "name \<noteq> volumeName" "name \<noteq> []" "1 < length (groupOf es engineOrder name)"
         "\<not> list_ex (pointee es Engine_Spec_Active) (groupOf es engineOrder name)"
         "a = Err err" "volumeFor lhc rm name = Inl err"
      by blast
    from entry[OF n(2,3)] n show ?thesis by blast
  qed
  have c: "\<exists>rm' es'. ?run = Inr rm' \<and> engines rm' = Some es' \<and>
             (\<forall>p \<in> set engineList.
                map_of es' p = map_of es p \<and> \<not> pointee es' Engine_Spec_Active p)"
    if ok: "\<forall>name others. map_of ?vem name = Some others \<longrightarrow>
              name \<noteq> volumeName \<longrightarrow> 1 < length others \<longrightarrow>
              \<not> list_ex (pointee es Engine_Spec_Active) others \<longrightarrow>
              (\<exists>v'. volumeFor lhc rm name = Inr v')"
  proof (cases ?run)
    case (Inl a)
    from b[OF Inl] ok show ?thesis by force
  next
    case (Inr rm')
    with g(1) show ?thesis by blast
  qed
  from g(1) b c show ?thesis by blast
qed

theorem checkAndUpdateEngineActiveState_unresolved_unchanged_witness:
  "ListAndUpdateEnginesInProvidedCache emptyStore (cacheOf [] enginesTwoGroups volumesOneFound)
     = Inr (enginesTwoGroups, cacheOf [] enginesTwoGroups volumesOneFound)
   \<and> rangeValid [''e4'', ''e1'', ''e5'', ''e2''] enginesTwoGroups
   \<and> rangeValid [''v1'', ''v3'']
        (volumeEngineMap (rangeOver [''e4'', ''e1'', ''e5'', ''e2''] enginesTwoGroups))
   \<and> map_of (volumeEngineMap (rangeOver [''e4'', ''e1'', ''e5'', ''e2''] enginesTwoGroups)) ''v1''
       = Some [''e1'', ''e2'']
   \<and> 1 < length [''e1'', ''e2'']
   \<and> \<not> list_ex (pointee enginesTwoGroups Engine_Spec_Active) [''e1'', ''e2'']
   \<and> volumeFor emptyStore (cacheOf [] enginesTwoGroups volumesOneFound) ''v1''
       = Inr (volumeOn [] [] [])
   \<and> \<not> list_ex (pointee enginesTwoGroups
                   (\<lambda>e. Engine_Spec_NodeID e = Volume_Spec_NodeID (volumeOn [] [] []) \<or>
                        Engine_Spec_NodeID e = Volume_Status_CurrentNodeID (volumeOn [] [] []) \<or>
                        Engine_Spec_NodeID e = Volume_Status_PendingNodeID (volumeOn [] [] [])))
          [''e1'', ''e2'']
   \<and> volumeEngineMap (rangeOver [''e4'', ''e1'', ''e5'', ''e2''] enginesTwoGroups)
       = [(''v3'', [''e4'', ''e5'']), (''v1'', [''e1'', ''e2''])]
   \<and> volumeFor emptyStore (cacheOf [] enginesTwoGroups volumesOneFound) ''v3''
       = Inr (volumeOn [] ''n2'' [])
   \<and> checkAndUpdateEngineActiveState emptyStore [''e4'', ''e1'', ''e5'', ''e2''] [''v1'', ''v3'']
        (cacheOf [] enginesTwoGroups volumesOneFound)
     = Inr (cacheOf [] enginesTwoGroupsAfter volumesOneFound)
   \<and> (\<exists>rm' es'.
         checkAndUpdateEngineActiveState emptyStore [''e4'', ''e1'', ''e5'', ''e2''] [''v1'', ''v3'']
           (cacheOf [] enginesTwoGroups volumesOneFound) = Inr rm' \<and>
         engines rm' = Some es' \<and>
         (\<forall>p \<in> set [''e1'', ''e2''].
            map_of es' p = map_of enginesTwoGroups p \<and> \<not> pointee es' Engine_Spec_Active p))"
proof -
  let ?rm = "cacheOf [] enginesTwoGroups volumesOneFound"
  let ?eo = "[''e4'', ''e1'', ''e5'', ''e2'']"
  have h1: "ListAndUpdateEnginesInProvidedCache emptyStore ?rm = Inr (enginesTwoGroups, ?rm)"
    by (simp add: cache_defs cacheOf_def)
  have h2: "rangeValid ?eo enginesTwoGroups"
    by (auto simp: rangeValid_def enginesTwoGroups_def)
  have vem: "volumeEngineMap (rangeOver ?eo enginesTwoGroups)
             = [(''v3'', [''e4'', ''e5'']), (''v1'', [''e1'', ''e2''])]"
    by (simp add: engines_defs example_defs)
  have h3: "rangeValid [''v1'', ''v3''] (volumeEngineMap (rangeOver ?eo enginesTwoGroups))"
    unfolding vem by (auto simp: rangeValid_def)
  have h4: "map_of (volumeEngineMap (rangeOver ?eo enginesTwoGroups)) ''v1'' = Some [''e1'', ''e2'']"
    unfolding vem by simp
  have h5: "1 < length [''e1'', ''e2'']" by simp
  have h6: "\<not> list_ex (pointee enginesTwoGroups Engine_Spec_Active) [''e1'', ''e2'']"
    by (simp add: engines_defs example_defs)
  have h7: "volumeFor emptyStore ?rm ''v1'' = Inr (volumeOn [] [] [])"
    by (simp add: engines_defs example_defs)
  have h8: "\<not> list_ex (pointee enginesTwoGroups
                   (\<lambda>e. Engine_Spec_NodeID e = Volume_Spec_NodeID (volumeOn [] [] []) \<or>
                        Engine_Spec_NodeID e = Volume_Status_CurrentNodeID (volumeOn [] [] []) \<or>
                        Engine_Spec_NodeID e = Volume_Status_PendingNodeID (volumeOn [] [] [])))
          [''e1'', ''e2'']"
    by (simp add: engines_defs example_defs)
  have v3: "volumeFor emptyStore ?rm ''v3'' = Inr (volumeOn [] ''n2'' [])"
    by (simp add: engines_defs example_defs)
  have ok: "\<forall>name others.
         map_of (volumeEngineMap (rangeOver ?eo enginesTwoGroups)) name = Some others \<longrightarrow>
         name \<noteq> ''v1'' \<longrightarrow> 1 < length others \<longrightarrow>
         \<not> list_ex (pointee enginesTwoGroups Engine_Spec_Active) others \<longrightarrow>
         (\<exists>v'. volumeFor emptyStore ?rm name = Inr v')"
    unfolding vem using v3 by (auto split: if_splits)
  have r: "checkAndUpdateEngineActiveState emptyStore ?eo [''v1'', ''v3''] ?rm
           = Inr (cacheOf [] enginesTwoGroupsAfter volumesOneFound)"
    by (simp add: engines_defs example_defs)
  from checkAndUpdateEngineActiveState_unresolved_unchanged [OF h1 h2 h3 h4 h5 h6 h7 h8]
  have "(\<forall>name others.
           map_of (volumeEngineMap (rangeOver ?eo enginesTwoGroups)) name = Some others \<longrightarrow>
           name \<noteq> ''v1'' \<longrightarrow> 1 < length others \<longrightarrow>
           \<not> list_ex (pointee enginesTwoGroups Engine_Spec_Active) others \<longrightarrow>
           (\<exists>v'. volumeFor emptyStore ?rm name = Inr v')) \<longrightarrow>
        (\<exists>rm' es'. checkAndUpdateEngineActiveState emptyStore ?eo [''v1'', ''v3''] ?rm = Inr rm' \<and>
           engines rm' = Some es' \<and>
           (\<forall>p \<in> set [''e1'', ''e2''].
              map_of es' p = map_of enginesTwoGroups p \<and> \<not> pointee es' Engine_Spec_Active p))"
    by blast
  with ok have fin: "\<exists>rm' es'. checkAndUpdateEngineActiveState emptyStore ?eo [''v1'', ''v3''] ?rm = Inr rm' \<and>
           engines rm' = Some es' \<and>
           (\<forall>p \<in> set [''e1'', ''e2''].
              map_of es' p = map_of enginesTwoGroups p \<and> \<not> pointee es' Engine_Spec_Active p)"
    by blast
  from h1 h2 h3 h4 h5 h6 h7 h8 vem v3 r fin show ?thesis by blast
qed

section \<open>crypto.go: the claim\<close>

text \<open>
  C10. For a device path that does not begin with \<open>/dev/mapper\<close>, \<open>DeviceEncryptionStatus\<close>
  returns the path itself, an empty mapper name and no error, whatever \<open>luksStatus\<close> would
  answer, and \<open>IsDeviceOpen\<close> returns \<open>(false, nil)\<close>.
\<close>

theorem DeviceEncryptionStatus_outside_mapper:
  assumes "\<not> prefix ''/dev/mapper'' devicePath"
  shows "DeviceEncryptionStatus luksStatus devicePath = Inr (devicePath, [], None)
       \<and> IsDeviceOpen luksStatus devicePath = Inr (False, None)"
  using assms
  by (simp add: DeviceEncryptionStatus_def IsDeviceOpen_def HasPrefix_def mapperFilePathPrefix_def)

theorem DeviceEncryptionStatus_outside_mapper_witness:
  "\<not> prefix ''/dev/mapper'' ''/dev/longhorn/vol1''
   \<and> DeviceEncryptionStatus luksActive ''/dev/longhorn/vol1'' = Inr (''/dev/longhorn/vol1'', [], None)
   \<and> IsDeviceOpen luksActive ''/dev/longhorn/vol1'' = Inr (False, None)"
  using DeviceEncryptionStatus_outside_mapper [of "''/dev/longhorn/vol1''" luksActive]
  by simp

end
